theory Spec2Isabelle
  imports Complex_Main "HOL-Library.Sublist" "HOL-Library.AList"
begin

section \<open>Values\<close>

text \<open>
  A Python \<open>float\<close> is modelled by the number it denotes: a rational, or one of the
  three non-finite values. Arithmetic is exact: the rounding of binary64 results and
  overflow to infinity are outside this model.
\<close>

datatype pyfloat = Fin rat | PInf | NInf | NaN

type_synonym sample = "int \<times> pyfloat"

section \<open>Series Store (server.py, lines 119 and 242-245)\<close>

text \<open>
  \<open>deque(maxlen=WINDOW_SIZE).append(x)\<close>: the item is added on the right and, when the
  deque then holds more than \<open>maxlen\<close> items, one item is discarded on the left.
\<close>

definition deque_append :: "nat \<Rightarrow> 'a \<Rightarrow> 'a list \<Rightarrow> 'a list" where
  "deque_append maxlen x d = (let d' = d @ [x] in if length d' > maxlen then tl d' else d')"

text \<open>
  Lines 244-245: \<open>while _series[name] and (t_ms - _series[name][0][0]) > RETENTION_MS:
  _series[name].popleft()\<close>.
\<close>

fun drop_expired :: "int \<Rightarrow> int \<Rightarrow> sample list \<Rightarrow> sample list" where
  "drop_expired retention_ms t_ms [] = []"
| "drop_expired retention_ms t_ms (s # d) =
     (if t_ms - fst s > retention_ms then drop_expired retention_ms t_ms d else s # d)"

text \<open>Lines 242-245 for one series: append, then drop by time.\<close>

definition series_append :: "nat \<Rightarrow> int \<Rightarrow> sample \<Rightarrow> sample list \<Rightarrow> sample list" where
  "series_append window_size retention_ms s d =
     drop_expired retention_ms (fst s) (deque_append window_size s d)"

text \<open>The series of one metric after the samples \<open>ss\<close> were appended in turn.\<close>

fun appends :: "nat \<Rightarrow> int \<Rightarrow> sample list \<Rightarrow> sample list \<Rightarrow> sample list" where
  "appends window_size retention_ms d [] = d"
| "appends window_size retention_ms d (s # ss) =
     appends window_size retention_ms (series_append window_size retention_ms s d) ss"

section \<open>Characters and strings\<close>

text \<open>
  A Python \<open>str\<close> is modelled as a \<open>string\<close> whose characters are the code points
  0 to 255. The character classes below are Python's, restricted to that range.
\<close>

definition code :: "char \<Rightarrow> int" where
  "code c = of_char c"

text \<open>\<open>\s\<close> of the \<open>re\<close> module, which is \<open>str.isspace\<close>.\<close>

definition is_space :: "char \<Rightarrow> bool" where
  "is_space c = ((9 \<le> code c \<and> code c \<le> 13) \<or> (28 \<le> code c \<and> code c \<le> 32)
                 \<or> code c = 133 \<or> code c = 160)"

text \<open>
  The white space that the builtins \<open>float\<close> and \<open>int\<close> strip from a string: the
  characters 0x1c to 0x1f are not part of it.
\<close>

definition is_float_space :: "char \<Rightarrow> bool" where
  "is_float_space c = ((9 \<le> code c \<and> code c \<le> 13) \<or> code c = 32
                       \<or> code c = 133 \<or> code c = 160)"

text \<open>\<open>[0-9]\<close>, and \<open>\d\<close> below code point 256.\<close>

definition is_digit :: "char \<Rightarrow> bool" where
  "is_digit c = (48 \<le> code c \<and> code c \<le> 57)"

definition digit_val :: "char \<Rightarrow> int" where
  "digit_val c = code c - 48"

definition digit_char :: "int \<Rightarrow> char" where
  "digit_char n = char_of (48 + n)"

definition digits_val :: "string \<Rightarrow> int" where
  "digits_val ds = foldl (\<lambda>a c. 10 * a + digit_val c) 0 ds"

text \<open>\<open>str.upper\<close> and \<open>str.lower\<close> on the letters a to z and A to Z.\<close>

definition upper :: "char \<Rightarrow> char" where
  "upper c = (if 97 \<le> code c \<and> code c \<le> 122 then char_of (code c - 32) else c)"

definition lower :: "char \<Rightarrow> char" where
  "lower c = (if 65 \<le> code c \<and> code c \<le> 90 then char_of (code c + 32) else c)"

text \<open>\<open>str(n)\<close> for an integer: the decimal digits of a non-negative one first.\<close>

function show_nat :: "int \<Rightarrow> string" where
  "show_nat n = (if n < 10 then [digit_char n] else show_nat (n div 10) @ [digit_char (n mod 10)])"
  by pat_completeness auto
termination
  by (relation "measure nat") auto

declare show_nat.simps [simp del]

definition show_int :: "int \<Rightarrow> string" where
  "show_int i = (if i < 0 then CHR ''-'' # show_nat (- i) else show_nat i)"

text \<open>\<open>s.split(d)\<close> for a one-character separator \<open>d\<close>.\<close>

fun split_on :: "char \<Rightarrow> string \<Rightarrow> string list" where
  "split_on d [] = [[]]"
| "split_on d (c # cs) =
     (if c = d then [] # split_on d cs
      else (case split_on d cs of [] \<Rightarrow> [[c]] | p # ps \<Rightarrow> (c # p) # ps))"

section \<open>The builtins \<open>int\<close> and \<open>float\<close> on strings\<close>

text \<open>
  A run of digits in which single underscores may separate digits; the result is the
  digits without the underscores.
\<close>

fun digitpart :: "string \<Rightarrow> string option" where
  "digitpart [] = None"
| "digitpart [c] = (if is_digit c then Some [c] else None)"
| "digitpart (c # d # r) =
     (if \<not> is_digit c then None
      else map_option ((#) c) (digitpart (if d = CHR ''_'' then r else d # r)))"

definition py_strip :: "string \<Rightarrow> string" where
  "py_strip s = rev (dropWhile is_float_space (rev (dropWhile is_float_space s)))"

definition split_sign :: "string \<Rightarrow> bool \<times> string" where
  "split_sign s = (case s of [] \<Rightarrow> (False, [])
     | c # r \<Rightarrow> if c = CHR ''-'' then (True, r) else if c = CHR ''+'' then (False, r) else (False, s))"

definition signed_digits :: "string \<Rightarrow> int option" where
  "signed_digits s = (case split_sign s of (neg, body) \<Rightarrow>
     (case digitpart body of None \<Rightarrow> None
      | Some ds \<Rightarrow> Some (if neg then - digits_val ds else digits_val ds)))"

text \<open>\<open>int(s)\<close>: \<open>None\<close> stands for the \<open>ValueError\<close>.\<close>

definition py_int :: "string \<Rightarrow> int option" where
  "py_int s = signed_digits (py_strip s)"

definition pow10 :: "int \<Rightarrow> rat" where
  "pow10 e = (if 0 \<le> e then 10 ^ nat e else 1 / 10 ^ nat (- e))"

definition parse_mantissa :: "string \<Rightarrow> rat option" where
  "parse_mantissa m =
     (let ip = takeWhile (\<lambda>c. c \<noteq> CHR ''.'') m; r = dropWhile (\<lambda>c. c \<noteq> CHR ''.'') m in
      case r of [] \<Rightarrow> map_option (\<lambda>ds. of_int (digits_val ds)) (digitpart ip)
      | _ # fp \<Rightarrow>
          if ip = [] \<and> fp = [] then None
          else (case (if ip = [] then Some [] else digitpart ip,
                      if fp = [] then Some [] else digitpart fp) of
                  (Some i, Some f) \<Rightarrow>
                     Some (of_int (digits_val i) + of_int (digits_val f) / 10 ^ length f)
                | _ \<Rightarrow> None))"

definition is_e :: "char \<Rightarrow> bool" where
  "is_e c = (c = CHR ''e'' \<or> c = CHR ''E'')"

definition parse_decimal :: "string \<Rightarrow> rat option" where
  "parse_decimal b =
     (let m = takeWhile (\<lambda>c. \<not> is_e c) b; r = dropWhile (\<lambda>c. \<not> is_e c) b in
      case parse_mantissa m of None \<Rightarrow> None
      | Some q \<Rightarrow> (case r of [] \<Rightarrow> Some q
          | _ # e \<Rightarrow> (case signed_digits e of None \<Rightarrow> None | Some x \<Rightarrow> Some (q * pow10 x))))"

text \<open>\<open>float(s)\<close>: \<open>None\<close> stands for the \<open>ValueError\<close>.\<close>

definition py_float :: "string \<Rightarrow> pyfloat option" where
  "py_float s = (case split_sign (py_strip s) of (neg, body) \<Rightarrow>
     if map lower body = ''inf'' \<or> map lower body = ''infinity''
       then Some (if neg then NInf else PInf)
     else if map lower body = ''nan'' then Some NaN
     else (case parse_decimal body of None \<Rightarrow> None
           | Some q \<Rightarrow> Some (Fin (if neg then - q else q))))"

section \<open>Float arithmetic\<close>

definition fsgn :: "pyfloat \<Rightarrow> int" where
  "fsgn x = (case x of Fin a \<Rightarrow> (if a < 0 then - 1 else if a = 0 then 0 else 1)
             | PInf \<Rightarrow> 1 | NInf \<Rightarrow> - 1 | NaN \<Rightarrow> 0)"

definition fmul :: "pyfloat \<Rightarrow> pyfloat \<Rightarrow> pyfloat" where
  "fmul x y = (case (x, y) of (Fin a, Fin b) \<Rightarrow> Fin (a * b)
     | _ \<Rightarrow> if fsgn x * fsgn y = 0 then NaN else if 0 < fsgn x * fsgn y then PInf else NInf)"

definition fneg :: "pyfloat \<Rightarrow> pyfloat" where
  "fneg x = (case x of Fin a \<Rightarrow> Fin (- a) | PInf \<Rightarrow> NInf | NInf \<Rightarrow> PInf | NaN \<Rightarrow> NaN)"

definition fadd :: "pyfloat \<Rightarrow> pyfloat \<Rightarrow> pyfloat" where
  "fadd x y = (case (x, y) of (Fin a, Fin b) \<Rightarrow> Fin (a + b)
     | (NaN, _) \<Rightarrow> NaN | (_, NaN) \<Rightarrow> NaN
     | (Fin a, _) \<Rightarrow> y | (_, Fin b) \<Rightarrow> x
     | _ \<Rightarrow> if x = y then x else NaN)"

definition fsub :: "pyfloat \<Rightarrow> pyfloat \<Rightarrow> pyfloat" where
  "fsub x y = fadd x (fneg y)"

text \<open>\<open>max(0.0, x)\<close>: the second argument is returned only when it is greater.\<close>

definition fmax0 :: "pyfloat \<Rightarrow> pyfloat" where
  "fmax0 x = (case x of Fin a \<Rightarrow> (if 0 < a then Fin a else Fin 0) | PInf \<Rightarrow> PInf | _ \<Rightarrow> Fin 0)"

section \<open>The format \<open>.12g\<close>\<close>

definition strip_zeros :: "string \<Rightarrow> string" where
  "strip_zeros s = rev (dropWhile (\<lambda>c. c = CHR ''0'') (rev s))"

definition frac_part :: "string \<Rightarrow> string" where
  "frac_part ds = (if strip_zeros ds = [] then [] else CHR ''.'' # strip_zeros ds)"

definition pad2 :: "string \<Rightarrow> string" where
  "pad2 s = (if length s < 2 then CHR ''0'' # s else s)"

text \<open>The decimal exponent of a positive rational: \<open>10 ^ e \<le> a < 10 ^ (e + 1)\<close>.\<close>

definition floor_log10 :: "rat \<Rightarrow> int" where
  "floor_log10 a =
     (if 1 \<le> a then int (length (show_nat \<lfloor>a\<rfloor>)) - 1
      else (case find (\<lambda>k. 1 \<le> a * 10 ^ k)
                   [1 ..< Suc (length (show_nat (snd (quotient_of a))))] of
              None \<Rightarrow> 0 | Some k \<Rightarrow> - int k))"

definition round_half_even :: "rat \<Rightarrow> int" where
  "round_half_even q =
     (let f = \<lfloor>q\<rfloor>; d = q - of_int f in
      if d < 1 / 2 then f else if 1 / 2 < d then f + 1 else if even f then f else f + 1)"

text \<open>
  The 12 significant digits of a positive rational and its decimal exponent, after
  rounding half to even: the pair \<open>(m, e)\<close> stands for \<open>m * 10 ^ (e - 11)\<close>, with
  \<open>10 ^ 11 \<le> m < 10 ^ 12\<close>.
\<close>

definition sig12 :: "rat \<Rightarrow> int \<times> int" where
  "sig12 a =
     (let e0 = floor_log10 a; m0 = round_half_even (a * pow10 (11 - e0))
      in if m0 = 1000000000000 then (100000000000, e0 + 1) else (m0, e0))"

definition fmt_fixed :: "string \<Rightarrow> int \<Rightarrow> string" where
  "fmt_fixed ds e =
     (if 0 \<le> e then take (nat e + 1) ds @ frac_part (drop (nat e + 1) ds)
      else ''0.'' @ replicate (nat (- e - 1)) (CHR ''0'') @ strip_zeros ds)"

definition fmt_sci :: "string \<Rightarrow> int \<Rightarrow> string" where
  "fmt_sci ds e =
     take 1 ds @ frac_part (drop 1 ds) @ ''e'' @ (if e < 0 then ''-'' else ''+'')
       @ pad2 (show_nat \<bar>e\<bar>)"

text \<open>
  \<open>f"{val:.12g}"\<close>: the value correctly rounded to 12 significant digits, in fixed
  notation when the decimal exponent is at least -4 and below 12 and in scientific
  notation otherwise, trailing zeros removed.
\<close>

definition fmt12g :: "pyfloat \<Rightarrow> string" where
  "fmt12g f = (case f of PInf \<Rightarrow> ''inf'' | NInf \<Rightarrow> ''-inf'' | NaN \<Rightarrow> ''nan''
     | Fin r \<Rightarrow>
         if r = 0 then ''0''
         else (case sig12 \<bar>r\<bar> of (m, e) \<Rightarrow>
                 (if r < 0 then ''-'' else [])
                 @ (if - 4 \<le> e \<and> e < 12 then fmt_fixed (show_nat m) e
                    else fmt_sci (show_nat m) e)))"

section \<open>JSON values and errors\<close>

text \<open>
  What \<open>json.loads\<close> returns: \<open>None\<close>, a \<open>bool\<close>, an \<open>int\<close>, a \<open>float\<close>, a \<open>str\<close>,
  a \<open>list\<close> or a \<open>dict\<close> with string keys. A \<open>dict\<close> is the list of its items in
  insertion order, each key once.
\<close>

datatype json = JNull | JBool bool | JInt int | JFloat pyfloat | JStr string
  | JList "json list" | JObj "(string \<times> json) list"

text \<open>The exceptions the modelled code raises, each with the line that raises it.\<close>

datatype error =
    ValueError json \<comment> \<open>line 84: Cannot parse numeric value from: val\<close>
  | BadSegment string \<comment> \<open>line 94: KeyError, Bad path segment\<close>
  | KeyNotFound string string \<comment> \<open>line 97: KeyError, Key not found in path\<close>
  | IndexOutOfRange int string string \<comment> \<open>line 102: KeyError, Index out of range\<close>
  | BuiltinValueError string \<comment> \<open>\<open>float(s)\<close> or \<open>int(s)\<close> on a string that is no number\<close>
  | TypeError \<comment> \<open>\<open>float(x)\<close> on \<open>None\<close>, a list or a dict\<close>
  | AttributeError \<comment> \<open>line 233: \<open>payload.get\<close> on a payload that is no dict\<close>
  | MissingSeries string \<comment> \<open>line 242: KeyError of \<open>_series[name]\<close>\<close>

text \<open>
  \<open>float(x)\<close> on a JSON value. A \<open>bool\<close> is an \<open>int\<close> in Python: \<open>float(True)\<close> is 1.0.
\<close>

definition float_of :: "json \<Rightarrow> error + pyfloat" where
  "float_of x = (case x of
       JInt n \<Rightarrow> Inr (Fin (of_int n))
     | JBool b \<Rightarrow> Inr (Fin (if b then 1 else 0))
     | JFloat f \<Rightarrow> Inr f
     | JStr s \<Rightarrow> (case py_float s of None \<Rightarrow> Inl (BuiltinValueError s) | Some f \<Rightarrow> Inr f)
     | _ \<Rightarrow> Inl TypeError)"

section \<open>Value Parser: \<open>parse_unit_number\<close> (lines 65-84)\<close>

definition UNIT_MAP :: "(string \<times> pyfloat) list" where
  "UNIT_MAP = [('''', Fin 1), (''K'', Fin 1000), (''M'', Fin 1000000), (''G'', Fin 1000000000),
               (''T'', Fin 1000000000000), (''P'', Fin 1000000000000000)]"

text \<open>\<open>[0-9.]\<close>, the characters of group 1, and \<open>[kKmMgGtTpP]\<close>, those of group 2.\<close>

definition is_numch :: "char \<Rightarrow> bool" where
  "is_numch c = (is_digit c \<or> c = CHR ''.'')"

definition is_unit_letter :: "char \<Rightarrow> bool" where
  "is_unit_letter c = (c \<in> set ''kKmMgGtTpP'')"

text \<open>\<open>[0-9]*\.?[0-9]+\<close> matches the whole of \<open>n\<close>.\<close>

definition is_number :: "string \<Rightarrow> bool" where
  "is_number n = (case dropWhile is_digit n of
       [] \<Rightarrow> n \<noteq> []
     | c # fp \<Rightarrow> c = CHR ''.'' \<and> fp \<noteq> [] \<and> list_all is_digit fp)"

text \<open>
  \<open>re.fullmatch(r"\s*([0-9]*\.?[0-9]+)\s*([kKmMgGtTpP]?)\s*", val)\<close>: the groups 1 and 2
  of the match, or \<open>None\<close>. White space, the characters of a number and the unit
  letters are disjoint classes, so a match splits the string in one way only: the leading
  white space, the longest run of \<open>[0-9.]\<close>, white space, at most one unit letter, white
  space to the end.
\<close>

definition match_unit_number :: "string \<Rightarrow> (string \<times> string) option" where
  "match_unit_number s =
     (let s1 = dropWhile is_space s;
          num = takeWhile is_numch s1;
          s2 = dropWhile is_space (dropWhile is_numch s1);
          unit = (case s2 of [] \<Rightarrow> [] | c # _ \<Rightarrow> if is_unit_letter c then [c] else []);
          s3 = dropWhile is_space (drop (length unit) s2)
      in if is_number num \<and> s3 = [] then Some (num, unit) else None)"

definition parse_unit_number :: "json \<Rightarrow> error + pyfloat" where
  "parse_unit_number val = (case val of
       JInt n \<Rightarrow> Inr (Fin (of_int n))
     | JBool b \<Rightarrow> Inr (Fin (if b then 1 else 0))
     | JFloat f \<Rightarrow> Inr f
     | JStr s \<Rightarrow>
         (case match_unit_number s of
            Some (num, unit) \<Rightarrow>
              (case py_float num of
                 None \<Rightarrow> Inl (BuiltinValueError num)
               | Some f \<Rightarrow>
                   Inr (fmul f (case map_of UNIT_MAP (map upper unit) of
                                  None \<Rightarrow> Fin 1 | Some u \<Rightarrow> u)))
          | None \<Rightarrow>
              (case py_float s of Some f \<Rightarrow> Inr f | None \<Rightarrow> Inl (ValueError val)))
     | _ \<Rightarrow> Inl (ValueError val))"

section \<open>Path Resolver: \<open>get_by_dot_path\<close> (lines 86-104)\<close>

definition is_bracket :: "char \<Rightarrow> bool" where
  "is_bracket c = (c = CHR ''['' \<or> c = CHR '']'')"

text \<open>
  \<open>re.fullmatch(r"([^\[\]]+)(?:\[(\d+)\])?", part)\<close>: the groups 1 and 2, or \<open>None\<close>.
  Group 1 holds no bracket, so it is the part up to the first bracket.
\<close>

definition match_segment :: "string \<Rightarrow> (string \<times> string option) option" where
  "match_segment part =
     (let key = takeWhile (\<lambda>c. \<not> is_bracket c) part;
          r = dropWhile (\<lambda>c. \<not> is_bracket c) part
      in if key = [] then None
         else (case r of [] \<Rightarrow> Some (key, None)
               | c # r' \<Rightarrow>
                   if c = CHR ''['' \<and> r' \<noteq> [] \<and> last r' = CHR '']''
                      \<and> butlast r' \<noteq> [] \<and> list_all is_digit (butlast r')
                   then Some (key, Some (butlast r')) else None))"

text \<open>The body of the loop over \<open>path.split(".")\<close>, lines 91-103.\<close>

fun get_by_dot_path_loop :: "string \<Rightarrow> json \<Rightarrow> string list \<Rightarrow> error + json" where
  "get_by_dot_path_loop path cur [] = Inr cur"
| "get_by_dot_path_loop path cur (part # parts) =
     (case match_segment part of
        None \<Rightarrow> Inl (BadSegment part)
      | Some (key, idx) \<Rightarrow>
          (case (case cur of JObj items \<Rightarrow> map_of items key | _ \<Rightarrow> None) of
             None \<Rightarrow> Inl (KeyNotFound key path)
           | Some v \<Rightarrow>
               (case idx of
                  None \<Rightarrow> get_by_dot_path_loop path v parts
                | Some ds \<Rightarrow>
                    (case py_int ds of
                       None \<Rightarrow> Inl (BuiltinValueError ds)
                     | Some i \<Rightarrow>
                         (case v of
                            JList xs \<Rightarrow>
                              if 0 \<le> i \<and> i < int (length xs)
                              then get_by_dot_path_loop path (xs ! nat i) parts
                              else Inl (IndexOutOfRange i key path)
                          | _ \<Rightarrow> Inl (IndexOutOfRange i key path))))))"

definition get_by_dot_path :: "json \<Rightarrow> string \<Rightarrow> error + json" where
  "get_by_dot_path obj path = get_by_dot_path_loop path obj (split_on (CHR ''.'') path)"

section \<open>Configuration and state\<close>

text \<open>
  The module constants read from the environment. \<open>METRICS\<close> and \<open>SCALES\<close> are dicts,
  given as their items in order.
\<close>

record config =
  METRICS :: "(string \<times> string) list"
  SCALES :: "(string \<times> json) list"
  WINDOW_SIZE :: nat
  RETENTION_MS :: int
  PERSIST_ENABLED :: bool

text \<open>
  \<open>_series\<close>, a dict from metric name to deque, and the CSV file at \<open>PERSIST_PATH\<close>:
  \<open>None\<close> when the file does not exist, else the rows the \<open>csv\<close> module reads from it,
  each row the list of its fields. Input and output errors are not modelled.
\<close>

type_synonym store = "string \<rightharpoonup> sample list"

type_synonym csv_file = "string list list option"

record state =
  series :: store
  history :: csv_file

text \<open>Line 119: an empty deque for each name in \<open>METRICS\<close>.\<close>

definition empty_series :: "config \<Rightarrow> store" where
  "empty_series cfg = map_of (map (\<lambda>(name, path). (name, [])) (METRICS cfg))"

section \<open>Metric extraction (lines 228-240)\<close>

text \<open>Lines 231-237: the value before scaling. \<open>now_s\<close> is \<open>time.time()\<close> of line 232.\<close>

definition extract_value :: "rat \<Rightarrow> json \<Rightarrow> string \<Rightarrow> error + pyfloat" where
  "extract_value now_s payload path =
     (if path = ''__computed__.lastshare_age_s'' then
        (case payload of
           JObj items \<Rightarrow>
             (case float_of (case map_of items ''lastshare'' of
                               None \<Rightarrow> JFloat (Fin now_s) | Some j \<Rightarrow> j) of
                Inl e \<Rightarrow> Inl e
              | Inr lastshare \<Rightarrow> Inr (fmax0 (fsub (Fin now_s) lastshare)))
         | _ \<Rightarrow> Inl AttributeError)
      else (case get_by_dot_path payload path of
              Inl e \<Rightarrow> Inl e
            | Inr raw \<Rightarrow> parse_unit_number raw))"

text \<open>Lines 231-240: the value times \<open>float(SCALES.get(name, 1.0))\<close>.\<close>

definition extract_metric :: "config \<Rightarrow> rat \<Rightarrow> json \<Rightarrow> string \<Rightarrow> string \<Rightarrow> error + pyfloat" where
  "extract_metric cfg now_s payload name path =
     (case extract_value now_s payload path of
        Inl e \<Rightarrow> Inl e
      | Inr v \<Rightarrow>
          (case float_of (case map_of (SCALES cfg) name of
                            None \<Rightarrow> JFloat (Fin 1) | Some j \<Rightarrow> j) of
             Inl e \<Rightarrow> Inl e
           | Inr scale \<Rightarrow> Inr (fmul v scale)))"

section \<open>Durable Log (lines 125-199)\<close>

definition CSV_HEADER :: "string list" where
  "CSV_HEADER = [''ts_ms'', ''metric'', ''value'']"

text \<open>
  \<open>_persist_append\<close>: one row per item of the batch, after the header when the file is
  new. The batch is a dict, given as its items in order.
\<close>

definition persist_append :: "config \<Rightarrow> int \<Rightarrow> (string \<times> pyfloat) list \<Rightarrow> csv_file \<Rightarrow> csv_file" where
  "persist_append cfg ts_ms batch file =
     (if \<not> PERSIST_ENABLED cfg then file
      else (case file of
              None \<Rightarrow> Some (CSV_HEADER # map (\<lambda>(name, val). [show_int ts_ms, name, fmt12g val]) batch)
            | Some rows \<Rightarrow> Some (rows @ map (\<lambda>(name, val). [show_int ts_ms, name, fmt12g val]) batch)))"

text \<open>
  A row of \<open>csv.DictReader\<close>: \<open>dict(zip(fieldnames, row))\<close>, the missing fields of a
  short row being \<open>None\<close>. \<open>row[key]\<close> is the value of the last item with that key;
  \<open>None\<close> stands for the \<open>KeyError\<close>.
\<close>

definition dict_row :: "string list \<Rightarrow> string list \<Rightarrow> string \<Rightarrow> string option option" where
  "dict_row fieldnames row key =
     map_of (rev (zip fieldnames (map Some row @ replicate (length fieldnames - length row) None))) key"

text \<open>
  Lines 157-167, the body of the loop of \<open>_load_history_into_memory\<close>: any exception
  skips the row.
\<close>

definition load_row :: "config \<Rightarrow> int \<Rightarrow> store \<Rightarrow> string list \<Rightarrow> store" where
  "load_row cfg cutoff ser row =
     (case dict_row CSV_HEADER row ''ts_ms'' of
        Some (Some ts_s) \<Rightarrow>
          (case py_int ts_s of
             None \<Rightarrow> ser
           | Some ts \<Rightarrow>
               if ts < cutoff then ser
               else (case dict_row CSV_HEADER row ''metric'' of
                       Some (Some metric) \<Rightarrow>
                         (case ser metric of
                            None \<Rightarrow> ser
                          | Some d \<Rightarrow>
                              (case dict_row CSV_HEADER row ''value'' of
                                 Some (Some v_s) \<Rightarrow>
                                   (case py_float v_s of
                                      None \<Rightarrow> ser
                                    | Some val \<Rightarrow>
                                        ser(metric \<mapsto> deque_append (WINDOW_SIZE cfg) (ts, val) d))
                               | _ \<Rightarrow> ser))
                     | _ \<Rightarrow> ser))
      | _ \<Rightarrow> ser)"

text \<open>
  \<open>_load_history_into_memory\<close> at the time \<open>now_ms\<close>. The first row of the file is the
  field names; \<open>DictReader\<close> skips the empty rows after it.
\<close>

definition load_history_into_memory :: "config \<Rightarrow> int \<Rightarrow> csv_file \<Rightarrow> store \<Rightarrow> store" where
  "load_history_into_memory cfg now_ms file ser =
     (if \<not> PERSIST_ENABLED cfg then ser
      else (case file of
              None \<Rightarrow> ser
            | Some [] \<Rightarrow> ser
            | Some (fieldnames # rows) \<Rightarrow>
                if fieldnames \<noteq> CSV_HEADER then ser
                else foldl (load_row cfg (now_ms - RETENTION_MS cfg)) ser
                       (filter (\<lambda>row. row \<noteq> []) rows)))"

text \<open>
  Lines 185-191, the body of the loop of \<open>_compact_csv\<close>: the row to write, or \<open>None\<close>
  when the row is dropped or an exception skips it. \<open>csv.writer\<close> writes \<open>None\<close> as the
  empty field.
\<close>

definition compact_row :: "config \<Rightarrow> int \<Rightarrow> string list \<Rightarrow> string list \<Rightarrow> string list option" where
  "compact_row cfg cutoff fieldnames row =
     (case dict_row fieldnames row ''ts_ms'' of
        Some (Some ts_s) \<Rightarrow>
          (case py_int ts_s of
             None \<Rightarrow> None
           | Some ts \<Rightarrow>
               (case dict_row fieldnames row ''metric'' of
                  Some (Some metric) \<Rightarrow>
                    if cutoff \<le> ts \<and> metric \<in> set (map fst (METRICS cfg))
                    then (case dict_row fieldnames row ''value'' of
                            None \<Rightarrow> None
                          | Some None \<Rightarrow> Some [ts_s, metric, []]
                          | Some (Some v_s) \<Rightarrow> Some [ts_s, metric, v_s])
                    else None
                | _ \<Rightarrow> None))
      | _ \<Rightarrow> None)"

text \<open>\<open>_compact_csv\<close> at the time \<open>now_ms\<close>.\<close>

definition compact_csv :: "config \<Rightarrow> int \<Rightarrow> csv_file \<Rightarrow> csv_file" where
  "compact_csv cfg now_ms file =
     (if \<not> PERSIST_ENABLED cfg then file
      else (case file of
              None \<Rightarrow> None
            | Some [] \<Rightarrow> Some [CSV_HEADER]
            | Some (fieldnames # rows) \<Rightarrow>
                Some (CSV_HEADER # List.map_filter (compact_row cfg (now_ms - RETENTION_MS cfg) fieldnames)
                                     (filter (\<lambda>row. row \<noteq> []) rows))))"

section \<open>Poller (lines 215-259)\<close>

text \<open>
  What one pass of the loop reads from outside: the clock at line 221, the clock at
  line 232 while the metric \<open>name\<close> is processed, and what lines 224-226 give, a payload
  or an exception (no connection, a status that is no success, a timeout, a body that is
  no JSON).
\<close>

datatype fetch_result = FetchFailed | Payload json

record tick =
  t_ms :: int
  now_s :: "string \<Rightarrow> rat"
  fetched :: fetch_result

text \<open>
  Lines 229-249 for one item of \<open>METRICS\<close>: on an exception the \<open>continue\<close> leaves the
  series and the batch as they are.
\<close>

definition process_metric ::
  "config \<Rightarrow> tick \<Rightarrow> json \<Rightarrow> store \<times> (string \<times> pyfloat) list \<Rightarrow> string \<times> string
     \<Rightarrow> store \<times> (string \<times> pyfloat) list" where
  "process_metric cfg tk payload acc item =
     (case (acc, item) of ((ser, batch), (name, path)) \<Rightarrow>
        (case extract_metric cfg (now_s tk name) payload name path of
           Inl e \<Rightarrow> (ser, batch)
         | Inr value_f \<Rightarrow>
             (case ser name of
                None \<Rightarrow> (ser, batch)
              | Some d \<Rightarrow>
                  (ser(name \<mapsto> series_append (WINDOW_SIZE cfg) (RETENTION_MS cfg) (t_ms tk, value_f) d),
                   AList.update name value_f batch))))"

text \<open>Lines 222 and 228-249: the loop over \<open>METRICS.items()\<close>, from an empty batch.\<close>

definition process_metrics ::
  "config \<Rightarrow> tick \<Rightarrow> json \<Rightarrow> store \<Rightarrow> store \<times> (string \<times> pyfloat) list" where
  "process_metrics cfg tk payload ser =
     foldl (process_metric cfg tk payload) (ser, []) (METRICS cfg)"

text \<open>One pass of the loop of \<open>poller\<close>, lines 221-257.\<close>

definition poll_cycle :: "config \<Rightarrow> tick \<Rightarrow> state \<Rightarrow> state" where
  "poll_cycle cfg tk st =
     (case fetched tk of
        FetchFailed \<Rightarrow> st
      | Payload payload \<Rightarrow>
          (case process_metrics cfg tk payload (series st) of
             (ser, batch) \<Rightarrow>
               \<lparr>series = ser,
                history = (if batch \<noteq> [] then persist_append cfg (t_ms tk) batch (history st)
                            else history st)\<rparr>))"

text \<open>The loop of \<open>poller\<close>, run for the passes \<open>tks\<close>.\<close>

fun poller :: "config \<Rightarrow> tick list \<Rightarrow> state \<Rightarrow> state" where
  "poller cfg [] st = st"
| "poller cfg (tk # tks) st = poller cfg tks (poll_cycle cfg tk st)"

section \<open>Reference definitions for the specification\<close>

text \<open>
  A path as the specification describes it: segments, each a key with an optional
  index, written \<open>a.b[idx].c\<close>. A key is not empty and holds no dot and no bracket.
\<close>

type_synonym segment = "string \<times> nat option"

definition valid_key :: "string \<Rightarrow> bool" where
  "valid_key k = (k \<noteq> [] \<and> (\<forall>c \<in> set k. c \<noteq> CHR ''.'' \<and> \<not> is_bracket c))"

definition render_segment :: "segment \<Rightarrow> string" where
  "render_segment sg = (case sg of (k, None) \<Rightarrow> k
     | (k, Some i) \<Rightarrow> k @ ''['' @ show_nat (int i) @ '']'')"

fun join_dot :: "string list \<Rightarrow> string" where
  "join_dot [] = []"
| "join_dot [p] = p"
| "join_dot (p # q # ps) = p @ CHR ''.'' # join_dot (q # ps)"

definition render_path :: "segment list \<Rightarrow> string" where
  "render_path sgs = join_dot (map render_segment sgs)"

text \<open>
  The leaf at that location: each key is looked up in a map, each index in a sequence
  that is long enough; \<open>None\<close> when a key is missing, a node is no map, or a sequence
  is missing or too short.
\<close>

fun leaf_at :: "json \<Rightarrow> segment list \<Rightarrow> json option" where
  "leaf_at j [] = Some j"
| "leaf_at j ((k, io) # sgs) =
     (case j of
        JObj items \<Rightarrow>
          (case map_of items k of
             None \<Rightarrow> None
           | Some v \<Rightarrow>
               (case io of
                  None \<Rightarrow> leaf_at v sgs
                | Some i \<Rightarrow>
                    (case v of
                       JList xs \<Rightarrow> if i < length xs then leaf_at (xs ! i) sgs else None
                     | _ \<Rightarrow> None)))
      | _ \<Rightarrow> None)"

text \<open>\<open>PathNotFound\<close> of the specification: a missing key or an index out of range.\<close>

definition path_not_found :: "error + json \<Rightarrow> bool" where
  "path_not_found r = (case r of Inl (KeyNotFound k p) \<Rightarrow> True
     | Inl (IndexOutOfRange i k p) \<Rightarrow> True | _ \<Rightarrow> False)"

text \<open>
  A decimal number as the specification describes it: digits, or digits (maybe none), a
  point and at least one digit. Its value, and the multiplier table of the unit letters.
\<close>

definition valid_decimal :: "string \<Rightarrow> string option \<Rightarrow> bool" where
  "valid_decimal ip fp = (list_all is_digit ip \<and>
     (case fp of None \<Rightarrow> ip \<noteq> [] | Some f \<Rightarrow> f \<noteq> [] \<and> list_all is_digit f))"

definition decimal_string :: "string \<Rightarrow> string option \<Rightarrow> string" where
  "decimal_string ip fp = ip @ (case fp of None \<Rightarrow> [] | Some f \<Rightarrow> CHR ''.'' # f)"

definition decimal_value :: "string \<Rightarrow> string option \<Rightarrow> rat" where
  "decimal_value ip fp = of_int (digits_val ip)
     + (case fp of None \<Rightarrow> 0 | Some f \<Rightarrow> of_int (digits_val f) / 10 ^ length f)"

definition unit_multiplier :: "string \<Rightarrow> rat" where
  "unit_multiplier u =
     (if u = ''k'' \<or> u = ''K'' then 10 ^ 3
      else if u = ''m'' \<or> u = ''M'' then 10 ^ 6
      else if u = ''g'' \<or> u = ''G'' then 10 ^ 9
      else if u = ''t'' \<or> u = ''T'' then 10 ^ 12
      else if u = ''p'' \<or> u = ''P'' then 10 ^ 15
      else 1)"

definition valid_unit :: "string \<Rightarrow> bool" where
  "valid_unit u = (case u of [] \<Rightarrow> True | [c] \<Rightarrow> is_unit_letter c | _ \<Rightarrow> False)"

text \<open>
  A row of a compacted log: a timestamp, a metric and a value, the timestamp not before
  the cutoff and the metric one of \<open>METRICS\<close>.
\<close>

definition compacted_row :: "config \<Rightarrow> int \<Rightarrow> string list \<Rightarrow> bool" where
  "compacted_row cfg cutoff row = (case row of
       [ts_s, metric, v_s] \<Rightarrow>
         (case py_int ts_s of None \<Rightarrow> False | Some ts \<Rightarrow> cutoff \<le> ts)
         \<and> metric \<in> set (map fst (METRICS cfg))
     | _ \<Rightarrow> False)"

section \<open>The scenario of the specification\<close>

text \<open>
  The end-to-end scenario of section 8 of the specification: three metrics, the default
  window of 1000 samples and retention of 72 hours, and a payload with and without
  \<open>hashrate1m\<close>, polled at the second 1700000000 with the last share 5 seconds before.
\<close>

definition scenario_config :: config where
  "scenario_config =
     \<lparr>METRICS = [(''HR1m'', ''hashrate1m''), (''Workers'', ''workers''),
                 (''Age'', ''__computed__.lastshare_age_s'')],
      SCALES = [(''HR1m'', JFloat (Fin (1 / 1000000000000)))],
      WINDOW_SIZE = 1000, RETENTION_MS = 259200000, PERSIST_ENABLED = True\<rparr>"

definition scenario_payload :: json where
  "scenario_payload =
     JObj [(''hashrate1m'', JStr ''10.7T''), (''workers'', JInt 3), (''lastshare'', JInt 1699999995)]"

definition scenario_payload_missing :: json where
  "scenario_payload_missing = JObj [(''workers'', JInt 3), (''lastshare'', JInt 1699999995)]"

definition scenario_tick :: "fetch_result \<Rightarrow> tick" where
  "scenario_tick f = \<lparr>t_ms = 1700000000000, now_s = (\<lambda>name. 1700000000), fetched = f\<rparr>"

definition scenario_state :: state where
  "scenario_state = \<lparr>series = empty_series scenario_config, history = None\<rparr>"

section \<open>Properties of the Series Store\<close>

lemma drop_expired_suffix: "suffix (drop_expired h t d) d"
  by (induction d) (auto intro: suffix_ConsI)

lemma drop_expired_dropWhile: "drop_expired h t d = dropWhile (\<lambda>s. t - fst s > h) d"
  by (induction d) auto

lemma deque_append_suffix: "suffix (deque_append c x d) (d @ [x])"
  by (cases d) (auto simp: deque_append_def Let_def intro: suffix_ConsI)

lemma deque_append_length: "length d \<le> c \<Longrightarrow> length (deque_append c x d) \<le> c"
  by (auto simp: deque_append_def Let_def)

lemma series_append_suffix: "suffix (series_append c h s d) (d @ [s])"
  unfolding series_append_def
  by (rule suffix_order.trans [OF drop_expired_suffix deque_append_suffix])

lemma series_append_length: "length d \<le> c \<Longrightarrow> length (series_append c h s d) \<le> c"
  unfolding series_append_def
  using suffix_length_le [OF drop_expired_suffix] deque_append_length
  by (metis le_trans)

lemma appends_suffix: "suffix (appends c h d ss) (d @ ss)"
proof (induction ss arbitrary: d)
  case Nil
  show ?case by simp
next
  case (Cons s ss)
  have "suffix (appends c h (series_append c h s d) ss) (series_append c h s d @ ss)"
    by (rule Cons.IH)
  moreover have "suffix (series_append c h s d @ ss) ((d @ [s]) @ ss)"
    using series_append_suffix by (metis suffix_append same_suffix_suffix suffix_def append.assoc)
  ultimately show ?case by (simp add: suffix_order.trans)
qed

lemma appends_length: "length d \<le> c \<Longrightarrow> length (appends c h d ss) \<le> c"
  by (induction ss arbitrary: d) (auto simp: series_append_length)

lemma appends_snoc:
  "appends c h d (ss @ [s]) = series_append c h s (appends c h d ss)"
  by (induction ss arbitrary: d) auto

text \<open>
  With ascending timestamps, what survives the time-based eviction of the last append
  lies within the horizon of the last timestamp.
\<close>

lemma drop_expired_within:
  assumes "sorted_wrt (<) (map fst d)"
  shows "\<forall>s \<in> set (drop_expired h t d). \<not> (t - fst s > h)"
  using assms
proof (induction d)
  case Nil
  show ?case by simp
next
  case (Cons a d)
  show ?case
  proof (cases "t - fst a > h")
    case True
    with Cons show ?thesis by simp
  next
    case False
    have "\<forall>s \<in> set d. fst a < fst s" using Cons.prems by auto
    with False show ?thesis by auto
  qed
qed

lemma sorted_wrt_suffix:
  "suffix xs ys \<Longrightarrow> sorted_wrt P ys \<Longrightarrow> sorted_wrt P xs"
  by (auto simp: suffix_def sorted_wrt_append)

lemma filter_suffix_length:
  assumes "suffix xs ys" and "\<forall>x \<in> set xs. P x"
  shows "length xs \<le> length (filter P ys)"
proof -
  from assms(1) obtain zs where ys: "ys = zs @ xs" by (auto simp: suffix_def)
  have "filter P xs = xs" using assms(2) by (simp add: filter_id_conv)
  then show ?thesis by (simp add: ys)
qed

text \<open>
  C1. After the samples \<open>ss\<close>, with strictly increasing timestamps, were appended to an
  empty series of window capacity \<open>c\<close> and retention horizon \<open>h\<close>, the series holds at
  most \<open>min c k\<close> samples, where \<open>k\<close> counts the appended samples whose timestamp is
  within \<open>h\<close> of the last one; its timestamps are strictly ascending; and it is a suffix
  of the appended samples, that is, what was evicted are the oldest samples.
\<close>

theorem series_store_bounded_ascending:
  assumes "sorted_wrt (<) (map fst ss)" and "ss \<noteq> []"
  shows "length (appends c h [] ss)
           \<le> min c (length (filter (\<lambda>s. fst (last ss) - fst s \<le> h) ss))
         \<and> sorted_wrt (<) (map fst (appends c h [] ss))
         \<and> suffix (appends c h [] ss) ss"
proof -
  let ?r = "appends c h [] ss"
  have suf: "suffix ?r ss" using appends_suffix [of c h "[]" ss] by simp
  have len: "length ?r \<le> c" by (rule appends_length) simp
  have asc: "sorted_wrt (<) (map fst ?r)"
    using suf assms(1) by (metis sorted_wrt_suffix map_mono_suffix)
  obtain ss' s where ss: "ss = ss' @ [s]"
    using assms(2) by (metis rev_exhaust)
  let ?d = "appends c h [] ss'"
  have r: "?r = drop_expired h (fst s) (deque_append c s ?d)"
    by (simp add: ss appends_snoc series_append_def)
  have "suffix (deque_append c s ?d) (?d @ [s])" by (rule deque_append_suffix)
  moreover have "suffix (?d @ [s]) ss"
    using appends_suffix [of c h "[]" ss'] by (simp add: ss)
  ultimately have "suffix (deque_append c s ?d) ss"
    by (rule suffix_order.trans)
  then have "sorted_wrt (<) (map fst (deque_append c s ?d))"
    using assms(1) by (metis sorted_wrt_suffix map_mono_suffix)
  then have "\<forall>x \<in> set ?r. \<not> (fst s - fst x > h)"
    unfolding r by (rule drop_expired_within)
  then have "\<forall>x \<in> set ?r. fst (last ss) - fst x \<le> h"
    by (auto simp: ss)
  with suf have "length ?r \<le> length (filter (\<lambda>x. fst (last ss) - fst x \<le> h) ss)"
    by (rule filter_suffix_length)
  with len asc suf show ?thesis by simp
qed

theorem series_store_bounded_ascending_witness:
  "length (appends 2 100 [] [(0, Fin 1), (50, Fin 2), (120, Fin 3), (130, Fin 4)])
     \<le> min 2 (length (filter (\<lambda>s. fst (last [(0, Fin 1), (50, Fin 2), (120, Fin 3), (130, Fin 4)]) - fst s \<le> 100)
          [(0::int, Fin 1), (50, Fin 2), (120, Fin 3), (130, Fin 4)]))
   \<and> sorted_wrt (<) (map fst (appends 2 100 [] [(0, Fin 1), (50, Fin 2), (120, Fin 3), (130, Fin 4)]))
   \<and> suffix (appends 2 100 [] [(0, Fin 1), (50, Fin 2), (120, Fin 3), (130, Fin 4)])
        [(0, Fin 1), (50, Fin 2), (120, Fin 3), (130, Fin 4)]
   \<and> appends 2 100 [] [(0, Fin 1), (50, Fin 2), (120, Fin 3), (130, Fin 4)] = [(120, Fin 3), (130, Fin 4)]"
  using series_store_bounded_ascending
    [of "[(0, Fin 1), (50, Fin 2), (120, Fin 3), (130, Fin 4)]" 2 100]
  by (simp add: series_append_def deque_append_def)

section \<open>Properties of the Poller\<close>

lemma process_metric_other:
  "name' \<noteq> fst item \<Longrightarrow>
     fst (process_metric cfg tk p acc item) name' = fst acc name'
     \<and> map_of (snd (process_metric cfg tk p acc item)) name' = map_of (snd acc) name'"
  by (cases acc; cases item)
     (auto simp: process_metric_def update_conv' split: sum.splits option.splits)

lemma process_fold_other:
  "name' \<notin> fst ` set items \<Longrightarrow>
     fst (foldl (process_metric cfg tk p) acc items) name' = fst acc name'
     \<and> map_of (snd (foldl (process_metric cfg tk p) acc items)) name' = map_of (snd acc) name'"
proof (induction items arbitrary: acc)
  case Nil
  show ?case by simp
next
  case (Cons item items)
  from Cons.prems have ne: "name' \<noteq> fst item" and rest: "name' \<notin> fst ` set items"
    by auto
  show ?case
    using Cons.IH [OF rest, of "process_metric cfg tk p acc item"]
          process_metric_other [OF ne, of cfg tk p acc]
    by simp
qed

lemma process_metric_at:
  "fst (process_metric cfg tk p acc (name, path)) name =
     (case extract_metric cfg (now_s tk name) p name path of
        Inl e \<Rightarrow> fst acc name
      | Inr v \<Rightarrow> map_option (series_append (WINDOW_SIZE cfg) (RETENTION_MS cfg) (t_ms tk, v))
                   (fst acc name))"
  "map_of (snd (process_metric cfg tk p acc (name, path))) name =
     (case extract_metric cfg (now_s tk name) p name path of
        Inl e \<Rightarrow> map_of (snd acc) name
      | Inr v \<Rightarrow> (if fst acc name = None then map_of (snd acc) name else Some v))"
  by (cases acc; auto simp: process_metric_def update_conv' split: sum.splits option.splits)+

lemma process_fold_at:
  assumes "distinct (map fst items)" and "(name, path) \<in> set items"
  shows "fst (foldl (process_metric cfg tk p) acc items) name =
           fst (process_metric cfg tk p acc (name, path)) name
         \<and> map_of (snd (foldl (process_metric cfg tk p) acc items)) name =
           map_of (snd (process_metric cfg tk p acc (name, path))) name"
  using assms
proof (induction items arbitrary: acc)
  case Nil
  then show ?case by simp
next
  case (Cons item items)
  show ?case
  proof (cases "item = (name, path)")
    case True
    with Cons.prems(1) have "name \<notin> fst ` set items" by auto
    from process_fold_other [OF this] True show ?thesis by simp
  next
    case False
    with Cons.prems have mem: "(name, path) \<in> set items" and dist: "distinct (map fst items)"
      by auto
    from mem have "name \<in> fst ` set items" by force
    moreover from Cons.prems(1) have "fst item \<notin> fst ` set items" by simp
    ultimately have ne: "name \<noteq> fst item" by blast
    let ?acc = "process_metric cfg tk p acc item"
    have same: "fst ?acc name = fst acc name" "map_of (snd ?acc) name = map_of (snd acc) name"
      using process_metric_other [OF ne] by auto
    have "fst (process_metric cfg tk p ?acc (name, path)) name
            = fst (process_metric cfg tk p acc (name, path)) name"
         "map_of (snd (process_metric cfg tk p ?acc (name, path))) name
            = map_of (snd (process_metric cfg tk p acc (name, path))) name"
      by (simp_all add: process_metric_at same cong: sum.case_cong if_cong)
    with Cons.IH [OF dist mem, of ?acc] show ?thesis by simp
  qed
qed

lemma process_fold_all_fail:
  "\<forall>(n, q) \<in> set items. isl (extract_metric cfg (now_s tk n) p n q) \<Longrightarrow>
     foldl (process_metric cfg tk p) acc items = acc"
proof (induction items arbitrary: acc)
  case Nil
  show ?case by simp
next
  case (Cons item items)
  obtain n q where item: "item = (n, q)" by (cases item)
  from Cons.prems item have "isl (extract_metric cfg (now_s tk n) p n q)" by auto
  then have "process_metric cfg tk p acc item = acc"
    by (cases acc) (auto simp: process_metric_def item split: sum.splits)
  with Cons show ?case by simp
qed

lemma series_poll_cycle:
  "fetched tk = Payload p \<Longrightarrow>
     series (poll_cycle cfg tk st) = fst (process_metrics cfg tk p (series st))"
  by (simp add: poll_cycle_def split: prod.splits)

text \<open>
  C7. In a pass whose fetch gave the payload \<open>p\<close>, what happens to the metric \<open>name\<close>
  is decided by its own extraction alone. When the extraction fails, its series is what
  it was before the pass and the batch has no entry for it; when it gives \<open>v\<close>, the sample
  is appended to its series and the batch maps it to \<open>v\<close>, whatever the other metrics
  did. A pass in which every extraction fails leaves the state as it was.
\<close>

theorem metric_failure_is_local:
  assumes "fetched tk = Payload p"
    and "distinct (map fst (METRICS cfg))"
    and "(name, path) \<in> set (METRICS cfg)"
  shows "(case extract_metric cfg (now_s tk name) p name path of
            Inl e \<Rightarrow>
              series (poll_cycle cfg tk st) name = series st name
              \<and> map_of (snd (process_metrics cfg tk p (series st))) name = None
          | Inr v \<Rightarrow>
              series (poll_cycle cfg tk st) name =
                map_option (series_append (WINDOW_SIZE cfg) (RETENTION_MS cfg) (t_ms tk, v))
                  (series st name)
              \<and> (series st name \<noteq> None \<longrightarrow>
                   map_of (snd (process_metrics cfg tk p (series st))) name = Some v))
         \<and> ((\<forall>(n, q) \<in> set (METRICS cfg). isl (extract_metric cfg (now_s tk n) p n q))
              \<longrightarrow> poll_cycle cfg tk st = st)"
proof
  have at: "fst (process_metrics cfg tk p (series st)) name =
              fst (process_metric cfg tk p (series st, []) (name, path)) name"
           "map_of (snd (process_metrics cfg tk p (series st))) name =
              map_of (snd (process_metric cfg tk p (series st, []) (name, path))) name"
    using process_fold_at [OF assms(2,3), of cfg tk p "(series st, [])"]
    by (simp_all add: process_metrics_def)
  show "case extract_metric cfg (now_s tk name) p name path of
            Inl e \<Rightarrow>
              series (poll_cycle cfg tk st) name = series st name
              \<and> map_of (snd (process_metrics cfg tk p (series st))) name = None
          | Inr v \<Rightarrow>
              series (poll_cycle cfg tk st) name =
                map_option (series_append (WINDOW_SIZE cfg) (RETENTION_MS cfg) (t_ms tk, v))
                  (series st name)
              \<and> (series st name \<noteq> None \<longrightarrow>
                   map_of (snd (process_metrics cfg tk p (series st))) name = Some v)"
    by (simp add: series_poll_cycle [OF assms(1)] at process_metric_at split: sum.splits)
next
  show "(\<forall>(n, q) \<in> set (METRICS cfg). isl (extract_metric cfg (now_s tk n) p n q))
          \<longrightarrow> poll_cycle cfg tk st = st"
  proof
    assume "\<forall>(n, q) \<in> set (METRICS cfg). isl (extract_metric cfg (now_s tk n) p n q)"
    then have "process_metrics cfg tk p (series st) = (series st, [])"
      unfolding process_metrics_def by (rule process_fold_all_fail)
    then show "poll_cycle cfg tk st = st"
      by (simp add: poll_cycle_def assms(1))
  qed
qed

theorem metric_failure_is_local_witness:
  "series (poll_cycle scenario_config (scenario_tick (Payload scenario_payload_missing))
             scenario_state) ''HR1m'' = series scenario_state ''HR1m''
   \<and> map_of (snd (process_metrics scenario_config (scenario_tick (Payload scenario_payload_missing))
                    scenario_payload_missing (series scenario_state))) ''HR1m'' = None
   \<and> series (poll_cycle scenario_config (scenario_tick (Payload scenario_payload_missing))
               scenario_state) ''Workers''
      = map_option (series_append (WINDOW_SIZE scenario_config) (RETENTION_MS scenario_config)
                      (t_ms (scenario_tick (Payload scenario_payload_missing)), Fin 3))
          (series scenario_state ''Workers'')
   \<and> map_of (snd (process_metrics scenario_config (scenario_tick (Payload scenario_payload_missing))
                    scenario_payload_missing (series scenario_state))) ''Workers'' = Some (Fin 3)
   \<and> poll_cycle scenario_config (scenario_tick (Payload JNull)) scenario_state = scenario_state"
proof -
  let ?tk = "scenario_tick (Payload scenario_payload_missing)"
  have f: "fetched ?tk = Payload scenario_payload_missing"
    and f0: "fetched (scenario_tick (Payload JNull)) = Payload JNull"
    by (simp_all add: scenario_tick_def)
  have d: "distinct (map fst (METRICS scenario_config))"
    and m1: "(''HR1m'', ''hashrate1m'') \<in> set (METRICS scenario_config)"
    and m2: "(''Workers'', ''workers'') \<in> set (METRICS scenario_config)"
    by (simp_all add: scenario_config_def)
  have e1: "extract_metric scenario_config (now_s ?tk ''HR1m'') scenario_payload_missing
              ''HR1m'' ''hashrate1m'' = Inl (KeyNotFound ''hashrate1m'' ''hashrate1m'')"
    and e2: "extract_metric scenario_config (now_s ?tk ''Workers'') scenario_payload_missing
              ''Workers'' ''workers'' = Inr (Fin 3)"
    and e3: "\<forall>(n, q) \<in> set (METRICS scenario_config).
              isl (extract_metric scenario_config (now_s (scenario_tick (Payload JNull)) n) JNull n q)"
    and s: "series scenario_state ''Workers'' \<noteq> None"
    by code_simp+
  from metric_failure_is_local [OF f d m1, of scenario_state]
    metric_failure_is_local [OF f d m2, of scenario_state]
    metric_failure_is_local [OF f0 d m1, of scenario_state]
  show ?thesis
    unfolding e1 e2 using e3 s by simp
qed

text \<open>
  C8. A pass whose fetch failed leaves the series and the file as they were, and the
  loop goes on with the next pass.
\<close>

theorem fetch_failure_aborts_cycle:
  assumes "fetched tk = FetchFailed"
  shows "series (poll_cycle cfg tk st) = series st
         \<and> history (poll_cycle cfg tk st) = history st
         \<and> poller cfg (tk # tks) st = poller cfg tks st"
  using assms by (simp add: poll_cycle_def)

theorem fetch_failure_aborts_cycle_witness:
  "fetched (scenario_tick FetchFailed) = FetchFailed
   \<and> series (poll_cycle scenario_config (scenario_tick FetchFailed) scenario_state)
       = series scenario_state
   \<and> history (poll_cycle scenario_config (scenario_tick FetchFailed) scenario_state)
       = history scenario_state
   \<and> poller scenario_config
        [scenario_tick FetchFailed, scenario_tick (Payload scenario_payload)] scenario_state
       = poller scenario_config [scenario_tick (Payload scenario_payload)] scenario_state"
proof -
  have f: "fetched (scenario_tick FetchFailed) = FetchFailed"
    by (simp add: scenario_tick_def)
  from f fetch_failure_aborts_cycle [OF f, of scenario_config scenario_state
      "[scenario_tick (Payload scenario_payload)]"]
  show ?thesis by blast
qed

text \<open>
  C10. Processing one metric changes the series of no other metric. So the time-based
  eviction reaches a series only when a sample is appended to it: a series whose
  extraction fails keeps a sample older than the retention horizon.
\<close>

theorem append_touches_one_series:
  "(name' \<noteq> name \<longrightarrow>
      fst (process_metric cfg tk p (ser, batch) (name, path)) name' = ser name')
   \<and> (fetched tk = Payload p \<and> distinct (map fst (METRICS cfg))
        \<and> (name, path) \<in> set (METRICS cfg)
        \<and> isl (extract_metric cfg (now_s tk name) p name path)
        \<and> series st name = Some ((t_old, v_old) # d) \<and> t_ms tk - t_old > RETENTION_MS cfg
      \<longrightarrow> series (poll_cycle cfg tk st) name = Some ((t_old, v_old) # d))"
proof (intro conjI impI)
  assume "name' \<noteq> name"
  then show "fst (process_metric cfg tk p (ser, batch) (name, path)) name' = ser name'"
    using process_metric_other [of name' "(name, path)" cfg tk p "(ser, batch)"] by simp
next
  assume a: "fetched tk = Payload p \<and> distinct (map fst (METRICS cfg))
        \<and> (name, path) \<in> set (METRICS cfg)
        \<and> isl (extract_metric cfg (now_s tk name) p name path)
        \<and> series st name = Some ((t_old, v_old) # d) \<and> t_ms tk - t_old > RETENTION_MS cfg"
  then have "fst (process_metrics cfg tk p (series st)) name =
               fst (process_metric cfg tk p (series st, []) (name, path)) name"
    using process_fold_at [of "METRICS cfg" name path cfg tk p "(series st, [])"]
    by (simp add: process_metrics_def)
  with a show "series (poll_cycle cfg tk st) name = Some ((t_old, v_old) # d)"
    by (auto simp: series_poll_cycle process_metric_at split: sum.splits)
qed

theorem append_touches_one_series_witness:
  "''Workers'' \<noteq> ''HR1m''
   \<and> fst (process_metric scenario_config (scenario_tick (Payload scenario_payload))
            scenario_payload (series scenario_state, []) (''HR1m'', ''hashrate1m'')) ''Workers''
       = series scenario_state ''Workers''
   \<and> t_ms (scenario_tick (Payload scenario_payload_missing)) - 0 > RETENTION_MS scenario_config
   \<and> series (poll_cycle scenario_config (scenario_tick (Payload scenario_payload_missing))
               (scenario_state\<lparr>series := (series scenario_state)(''HR1m'' \<mapsto> [(0, Fin 1)])\<rparr>))
        ''HR1m'' = Some [(0, Fin 1)]"
proof -
  let ?tk = "scenario_tick (Payload scenario_payload_missing)"
  let ?st = "scenario_state\<lparr>series := (series scenario_state)(''HR1m'' \<mapsto> [(0, Fin 1)])\<rparr>"
  have ne: "''Workers'' \<noteq> ''HR1m''" by simp
  have h: "fetched ?tk = Payload scenario_payload_missing
           \<and> distinct (map fst (METRICS scenario_config))
           \<and> (''HR1m'', ''hashrate1m'') \<in> set (METRICS scenario_config)
           \<and> isl (extract_metric scenario_config (now_s ?tk ''HR1m'') scenario_payload_missing
                    ''HR1m'' ''hashrate1m'')
           \<and> series ?st ''HR1m'' = Some ((0, Fin 1) # [])
           \<and> t_ms ?tk - 0 > RETENTION_MS scenario_config"
    by code_simp
  from ne h
    append_touches_one_series [where name' = "''Workers''" and name = "''HR1m''"
      and cfg = scenario_config and tk = "scenario_tick (Payload scenario_payload)"
      and p = scenario_payload and ser = "series scenario_state" and batch = "[]"
      and path = "''hashrate1m''"]
    append_touches_one_series [where name' = "''Workers''" and name = "''HR1m''"
      and cfg = scenario_config and tk = ?tk and p = scenario_payload_missing
      and path = "''hashrate1m''" and st = ?st and t_old = 0 and v_old = "Fin 1" and d = "[]"]
  show ?thesis by blast
qed

section \<open>Properties of the computed metric\<close>

lemma fmax0_fsub_Fin: "fmax0 (fsub (Fin a) (Fin b)) = Fin (max 0 (a - b))"
  by (simp add: fmax0_def fsub_def fadd_def fneg_def max_def)

text \<open>
  C6. On a payload that is a JSON object, the metric with the path
  \<open>__computed__.lastshare_age_s\<close> is the clock minus \<open>lastshare\<close>, and 0 when that is
  negative, for a \<open>lastshare\<close> that \<open>float\<close> turns into a finite number; it is 0 when the
  payload has no \<open>lastshare\<close>. The sample stored for the metric is that value times the
  scale of the metric, which is 1 when \<open>SCALES\<close> has no entry for it.
\<close>

theorem lastshare_age_computed:
  "(map_of items ''lastshare'' = Some j \<and> float_of j = Inr (Fin l) \<longrightarrow>
      extract_value now (JObj items) ''__computed__.lastshare_age_s'' = Inr (Fin (max 0 (now - l)))
      \<and> (map_of (SCALES cfg) name = None \<longrightarrow>
           extract_metric cfg now (JObj items) name ''__computed__.lastshare_age_s''
             = Inr (Fin (max 0 (now - l)))))
   \<and> (map_of items ''lastshare'' = None \<longrightarrow>
      extract_value now (JObj items) ''__computed__.lastshare_age_s'' = Inr (Fin 0)
      \<and> (map_of (SCALES cfg) name = None \<longrightarrow>
           extract_metric cfg now (JObj items) name ''__computed__.lastshare_age_s''
             = Inr (Fin 0)))"
  by (simp add: extract_value_def extract_metric_def float_of_def fmax0_fsub_Fin fmul_def)

theorem lastshare_age_computed_witness:
  "extract_value 1700000000 (JObj [(''workers'', JInt 3), (''lastshare'', JInt 1699999995)])
     ''__computed__.lastshare_age_s'' = Inr (Fin 5)
   \<and> extract_metric scenario_config 1700000000
        (JObj [(''workers'', JInt 3), (''lastshare'', JInt 1699999995)])
        ''Age'' ''__computed__.lastshare_age_s'' = Inr (Fin 5)
   \<and> extract_value 1700000000 (JObj [(''workers'', JInt 3)])
        ''__computed__.lastshare_age_s'' = Inr (Fin 0)
   \<and> extract_metric scenario_config 1700000000 (JObj [(''workers'', JInt 3)])
        ''Age'' ''__computed__.lastshare_age_s'' = Inr (Fin 0)"
proof -
  have a: "map_of [(''workers'', JInt 3), (''lastshare'', JInt 1699999995)] ''lastshare''
             = Some (JInt 1699999995)"
    and b: "float_of (JInt 1699999995) = Inr (Fin 1699999995)"
    and c: "map_of [(''workers'', JInt 3)] ''lastshare'' = None"
    and s: "map_of (SCALES scenario_config) ''Age'' = None"
    by (simp_all add: float_of_def scenario_config_def)
  from a b c s
    lastshare_age_computed [where items = "[(''workers'', JInt 3), (''lastshare'', JInt 1699999995)]"
      and j = "JInt 1699999995" and l = 1699999995 and now = 1700000000
      and cfg = scenario_config and name = "''Age''"]
    lastshare_age_computed [where items = "[(''workers'', JInt 3)]"
      and j = "JInt 1699999995" and l = 1699999995 and now = 1700000000
      and cfg = scenario_config and name = "''Age''"]
  show ?thesis by simp
qed

section \<open>Properties of the compaction\<close>

lemma dict_row_header:
  "dict_row CSV_HEADER [a, b, c] ''ts_ms'' = Some (Some a)"
  "dict_row CSV_HEADER [a, b, c] ''metric'' = Some (Some b)"
  "dict_row CSV_HEADER [a, b, c] ''value'' = Some (Some c)"
  by (simp_all add: dict_row_def CSV_HEADER_def)

lemma compact_row_compacted:
  assumes "compacted_row cfg cutoff row"
  shows "compact_row cfg cutoff CSV_HEADER row = Some row"
proof -
  from assms obtain a b c ts where row: "row = [a, b, c]"
    and ts: "py_int a = Some ts" "cutoff \<le> ts" and b: "b \<in> fst ` set (METRICS cfg)"
    by (auto simp: compacted_row_def split: list.splits option.splits)
  show ?thesis
    unfolding row compact_row_def by (simp add: dict_row_header ts b)
qed

lemma compacted_row_nonempty: "compacted_row cfg cutoff row \<Longrightarrow> row \<noteq> []"
  by (auto simp: compacted_row_def)

lemma map_filter_id: "\<forall>x \<in> set xs. f x = Some x \<Longrightarrow> List.map_filter f xs = xs"
  by (induction xs) (simp_all add: map_filter_simps)

lemma compact_csv_compacted:
  assumes "\<forall>row \<in> set rows. compacted_row cfg (now_ms - RETENTION_MS cfg) row"
  shows "compact_csv cfg now_ms (Some (CSV_HEADER # rows)) = Some (CSV_HEADER # rows)"
proof -
  have "filter (\<lambda>row. row \<noteq> []) rows = rows"
    using assms by (auto simp: filter_id_conv dest: compacted_row_nonempty)
  moreover have "List.map_filter (compact_row cfg (now_ms - RETENTION_MS cfg) CSV_HEADER) rows = rows"
    using assms by (intro map_filter_id) (simp add: compact_row_compacted)
  ultimately show ?thesis by (simp add: compact_csv_def)
qed

lemma compact_row_gives_compacted:
  "compact_row cfg cutoff fieldnames row = Some row' \<Longrightarrow> compacted_row cfg cutoff row'"
  by (force simp: compact_row_def compacted_row_def split: option.splits if_splits)

lemma map_filter_all:
  "(\<And>x y. f x = Some y \<Longrightarrow> P y) \<Longrightarrow> \<forall>y \<in> set (List.map_filter f xs). P y"
  by (induction xs) (auto simp: map_filter_simps split: option.splits)

text \<open>
  C9. A log that is compacted, that is, the header followed by rows of three fields
  whose timestamp is within the retention horizon and whose metric is in \<open>METRICS\<close>, is
  left as it is by the compaction; and what a compaction writes is such a log, so that
  compacting it again at the same time changes nothing.
\<close>

theorem compaction_idempotent:
  "((\<forall>row \<in> set rows. compacted_row cfg (now_ms - RETENTION_MS cfg) row) \<longrightarrow>
      compact_csv cfg now_ms (Some (CSV_HEADER # rows)) = Some (CSV_HEADER # rows))
   \<and> compact_csv cfg now_ms (compact_csv cfg now_ms fl) = compact_csv cfg now_ms fl"
proof
  show "(\<forall>row \<in> set rows. compacted_row cfg (now_ms - RETENTION_MS cfg) row) \<longrightarrow>
      compact_csv cfg now_ms (Some (CSV_HEADER # rows)) = Some (CSV_HEADER # rows)"
    by (simp add: compact_csv_compacted)
next
  show "compact_csv cfg now_ms (compact_csv cfg now_ms fl) = compact_csv cfg now_ms fl"
  proof (cases "PERSIST_ENABLED cfg")
    case False
    then show ?thesis by (simp add: compact_csv_def)
  next
    case True
    show ?thesis
    proof (cases fl)
      case None
      then show ?thesis by (simp add: compact_csv_def)
    next
      case (Some rows)
      let ?c = "now_ms - RETENTION_MS cfg"
      obtain out where out: "compact_csv cfg now_ms fl = Some (CSV_HEADER # out)"
        and all: "\<forall>row \<in> set out. compacted_row cfg ?c row"
      proof (cases rows)
        case Nil
        with Some True have "compact_csv cfg now_ms fl = Some (CSV_HEADER # [])"
          by (simp add: compact_csv_def)
        then show ?thesis using that by simp
      next
        case (Cons fieldnames rest)
        let ?out = "List.map_filter (compact_row cfg ?c fieldnames) (filter (\<lambda>row. row \<noteq> []) rest)"
        have "compact_csv cfg now_ms fl = Some (CSV_HEADER # ?out)"
          using Some True Cons by (simp add: compact_csv_def)
        moreover have "\<forall>row \<in> set ?out. compacted_row cfg ?c row"
          by (rule map_filter_all) (rule compact_row_gives_compacted)
        ultimately show ?thesis using that by blast
      qed
      show ?thesis unfolding out using all by (rule compact_csv_compacted)
    qed
  qed
qed

theorem compaction_idempotent_witness:
  "(\<forall>row \<in> set [[''1700000000000'', ''HR1m'', ''10.7''], [''1700000000000'', ''Workers'', ''3'']].
      compacted_row scenario_config (1700000005000 - RETENTION_MS scenario_config) row)
   \<and> compact_csv scenario_config 1700000005000
        (Some (CSV_HEADER # [[''1700000000000'', ''HR1m'', ''10.7''], [''1700000000000'', ''Workers'', ''3'']]))
      = Some (CSV_HEADER # [[''1700000000000'', ''HR1m'', ''10.7''], [''1700000000000'', ''Workers'', ''3'']])"
proof -
  have h: "\<forall>row \<in> set [[''1700000000000'', ''HR1m'', ''10.7''], [''1700000000000'', ''Workers'', ''3'']].
      compacted_row scenario_config (1700000005000 - RETENTION_MS scenario_config) row"
    by code_simp
  from h compaction_idempotent [where cfg = scenario_config and now_ms = 1700000005000
      and rows = "[[''1700000000000'', ''HR1m'', ''10.7''], [''1700000000000'', ''Workers'', ''3'']]"
      and fl = None]
  show ?thesis by blast
qed

section \<open>Properties of digits and of the builtins\<close>

lemma code_digit_char: "0 \<le> n \<Longrightarrow> n < 10 \<Longrightarrow> code (digit_char n) = 48 + n"
  by (simp add: code_def digit_char_def of_char_of)

lemma is_digit_digit_char: "0 \<le> n \<Longrightarrow> n < 10 \<Longrightarrow> is_digit (digit_char n)"
  by (simp add: is_digit_def code_digit_char)

lemma digit_val_digit_char: "0 \<le> n \<Longrightarrow> n < 10 \<Longrightarrow> digit_val (digit_char n) = n"
  by (simp add: digit_val_def code_digit_char)

lemma is_digit_not_special:
  assumes "is_digit c"
  shows "\<not> is_space c" "\<not> is_float_space c" "c \<noteq> CHR ''.''" "c \<noteq> CHR ''_''"
    "c \<noteq> CHR ''-''" "c \<noteq> CHR ''+''" "\<not> is_e c" "\<not> is_bracket c" "\<not> is_unit_letter c"
    "is_numch c" "lower c = c"
  using assms
  by (auto simp: is_digit_def is_space_def is_float_space_def is_e_def is_bracket_def
        is_unit_letter_def is_numch_def lower_def code_def)

lemma show_nat_nonempty: "show_nat n \<noteq> []"
  by (subst show_nat.simps) simp

lemma show_nat_digits: "0 \<le> n \<Longrightarrow> list_all is_digit (show_nat n)"
proof (induction n rule: show_nat.induct)
  case (1 n)
  show ?case
  proof (cases "n < 10")
    case True
    with 1 show ?thesis by (subst show_nat.simps) (simp add: is_digit_digit_char)
  next
    case False
    with 1 have "list_all is_digit (show_nat (n div 10))" by simp
    moreover have "is_digit (digit_char (n mod 10))" by (simp add: is_digit_digit_char)
    ultimately show ?thesis using False by (subst show_nat.simps) simp
  qed
qed

lemma digits_val_snoc: "digits_val (ds @ [c]) = 10 * digits_val ds + digit_val c"
  by (simp add: digits_val_def)

lemma digits_val_show_nat: "0 \<le> n \<Longrightarrow> digits_val (show_nat n) = n"
proof (induction n rule: show_nat.induct)
  case (1 n)
  show ?case
  proof (cases "n < 10")
    case True
    with 1 show ?thesis
      by (subst show_nat.simps) (simp add: digits_val_def digit_val_digit_char)
  next
    case False
    with 1 have "digits_val (show_nat (n div 10)) = n div 10" by simp
    then show ?thesis
      using False by (subst show_nat.simps) (simp add: digits_val_snoc digit_val_digit_char)
  qed
qed

lemma digitpart_digits: "ds \<noteq> [] \<Longrightarrow> list_all is_digit ds \<Longrightarrow> digitpart ds = Some ds"
proof (induction ds rule: digitpart.induct)
  case 1
  then show ?case by simp
next
  case (2 c)
  then show ?case by simp
next
  case (3 c d r)
  from "3.prems" have d: "is_digit d" by simp
  then have "d \<noteq> CHR ''_''" by (rule is_digit_not_special)
  with 3 show ?case by simp
qed

lemma py_strip_id:
  assumes "s \<noteq> []" and "\<not> is_float_space (hd s)" and "\<not> is_float_space (last s)"
  shows "py_strip s = s"
proof -
  have "dropWhile is_float_space s = s"
    using assms(1,2) by (cases s) simp_all
  moreover have "dropWhile is_float_space (rev s) = rev s"
    using assms(1,3) by (cases "rev s") (simp_all add: hd_rev [symmetric])
  ultimately show ?thesis by (simp add: py_strip_def)
qed

lemma digits_hd_last:
  assumes "ds \<noteq> []" and "list_all is_digit ds"
  shows "is_digit (hd ds)" "is_digit (last ds)"
  using assms by (simp_all add: list_all_iff)

lemma split_sign_digit: "s \<noteq> [] \<Longrightarrow> is_digit (hd s) \<Longrightarrow> split_sign s = (False, s)"
  by (cases s) (auto simp: split_sign_def dest: is_digit_not_special)

lemma signed_digits_digits:
  "ds \<noteq> [] \<Longrightarrow> list_all is_digit ds \<Longrightarrow> signed_digits ds = Some (digits_val ds)"
  by (simp add: signed_digits_def split_sign_digit digits_hd_last digitpart_digits)

lemma py_int_digits:
  assumes "ds \<noteq> []" and "list_all is_digit ds"
  shows "py_int ds = Some (digits_val ds)"
proof -
  have "py_strip ds = ds"
    using assms digits_hd_last [OF assms] by (intro py_strip_id) (simp_all add: is_digit_not_special)
  then show ?thesis by (simp add: py_int_def signed_digits_digits assms)
qed

lemma py_int_show_nat: "0 \<le> n \<Longrightarrow> py_int (show_nat n) = Some n"
  by (simp add: py_int_digits show_nat_nonempty show_nat_digits digits_val_show_nat)

text \<open>\<open>int(str(i))\<close> is \<open>i\<close>.\<close>

lemma py_int_show_int: "py_int (show_int i) = Some i"
proof (cases "i < 0")
  case False
  then show ?thesis by (simp add: show_int_def py_int_show_nat)
next
  case True
  let ?ds = "show_nat (- i)"
  have ds: "?ds \<noteq> []" "list_all is_digit ?ds"
    using True by (simp_all add: show_nat_nonempty show_nat_digits)
  have "\<not> is_float_space (last (CHR ''-'' # ?ds))"
    using digits_hd_last(2) [OF ds] ds(1) by (simp add: is_digit_not_special)
  moreover have "\<not> is_float_space (CHR ''-'')"
    by (simp add: is_float_space_def code_def)
  ultimately have "py_strip (CHR ''-'' # ?ds) = CHR ''-'' # ?ds"
    by (intro py_strip_id) simp_all
  moreover have "signed_digits (CHR ''-'' # ?ds) = Some (- digits_val ?ds)"
    by (simp add: signed_digits_def split_sign_def digitpart_digits ds)
  ultimately show ?thesis
    using True by (simp add: show_int_def py_int_def digits_val_show_nat)
qed

section \<open>Properties of the Durable Log\<close>

lemma load_row_written:
  assumes "cutoff \<le> ts" and "py_float (fmt12g v) = Some v"
  shows "load_row cfg cutoff ser [show_int ts, name, fmt12g v] =
           (case ser name of None \<Rightarrow> ser
            | Some d \<Rightarrow> ser(name \<mapsto> deque_append (WINDOW_SIZE cfg) (ts, v) d))"
  using assms by (simp add: load_row_def dict_row_header py_int_show_int split: option.splits)

lemma load_rows_other:
  "name \<notin> fst ` set batch \<Longrightarrow>
     foldl (load_row cfg cutoff) ser (map (\<lambda>(n, v). [show_int ts, n, fmt12g v]) batch) name
       = ser name"
proof (induction batch arbitrary: ser)
  case Nil
  show ?case by simp
next
  case (Cons item batch)
  obtain n v where item: "item = (n, v)" by (cases item)
  from Cons.prems item have ne: "n \<noteq> name" and rest: "name \<notin> fst ` set batch" by auto
  have "load_row cfg cutoff ser [show_int ts, n, fmt12g v] name = ser name"
    using ne by (auto simp: load_row_def dict_row_header split: option.splits)
  with Cons.IH [OF rest] show ?case by (simp add: item)
qed

lemma load_rows_written:
  assumes "distinct (map fst batch)" and "cutoff \<le> ts"
    and "\<forall>(n, v) \<in> set batch. py_float (fmt12g v) = Some v"
  shows "foldl (load_row cfg cutoff) ser (map (\<lambda>(n, v). [show_int ts, n, fmt12g v]) batch) name =
           (case map_of batch name of None \<Rightarrow> ser name
            | Some v \<Rightarrow> map_option (deque_append (WINDOW_SIZE cfg) (ts, v)) (ser name))"
  using assms(1,3)
proof (induction batch arbitrary: ser)
  case Nil
  show ?case by simp
next
  case (Cons item batch)
  obtain n v where item: "item = (n, v)" by (cases item)
  from Cons.prems item have v: "py_float (fmt12g v) = Some v"
    and rest: "\<forall>(n, v) \<in> set batch. py_float (fmt12g v) = Some v"
    and dist: "distinct (map fst batch)" and fresh: "n \<notin> fst ` set batch"
    by auto
  let ?ser = "load_row cfg cutoff ser [show_int ts, n, fmt12g v]"
  have step: "?ser = (case ser n of None \<Rightarrow> ser
                      | Some d \<Rightarrow> ser(n \<mapsto> deque_append (WINDOW_SIZE cfg) (ts, v) d))"
    using assms(2) v by (rule load_row_written)
  show ?case
  proof (cases "n = name")
    case True
    have "foldl (load_row cfg cutoff) ?ser (map (\<lambda>(n, v). [show_int ts, n, fmt12g v]) batch) name
            = ?ser name"
      using fresh True by (intro load_rows_other) simp
    also have "\<dots> = map_option (deque_append (WINDOW_SIZE cfg) (ts, v)) (ser name)"
      unfolding True [symmetric] by (simp add: step split: option.splits)
    finally show ?thesis using True by (simp add: item)
  next
    case False
    then have "?ser name = ser name" by (simp add: step split: option.splits)
    with Cons.IH [OF dist rest, of ?ser] False show ?thesis
      by (simp add: item cong: option.case_cong)
  qed
qed

lemma written_rows_nonempty:
  "filter (\<lambda>row. row \<noteq> []) (map (\<lambda>(n, v). [show_int ts, n, fmt12g v]) batch)
     = map (\<lambda>(n, v). [show_int ts, n, fmt12g v]) batch"
  by (induction batch) auto

text \<open>
  C5, as amended. A batch is appended with the timestamp \<open>ts\<close> to a log that does not
  exist yet or that starts with the header, and the log is then loaded with a retention
  horizon that covers \<open>ts\<close>. When each value of the batch is read back from its rendering
  with 12 significant digits as itself, the series of each metric of the batch is what
  the load of the log before the append gives, followed by the sample of the batch (under
  the window capacity of the deque); the other series are as the load of the log before
  the append gives them, and a metric that has no series gets none.
\<close>

theorem durable_log_roundtrip:
  assumes "PERSIST_ENABLED cfg"
    and "distinct (map fst batch)"
    and "now_ms - RETENTION_MS cfg \<le> ts"
    and "\<forall>(n, v) \<in> set batch. py_float (fmt12g v) = Some v"
    and "fl = None \<or> (\<exists>rows. fl = Some (CSV_HEADER # rows))"
  shows "load_history_into_memory cfg now_ms (persist_append cfg ts batch fl) ser name =
           (case map_of batch name of
              None \<Rightarrow> load_history_into_memory cfg now_ms fl ser name
            | Some v \<Rightarrow> map_option (deque_append (WINDOW_SIZE cfg) (ts, v))
                          (load_history_into_memory cfg now_ms fl ser name))"
proof -
  let ?new = "map (\<lambda>(n, v). [show_int ts, n, fmt12g v]) batch"
  let ?c = "now_ms - RETENTION_MS cfg"
  from assms(5) show ?thesis
  proof
    assume "fl = None"
    then have "load_history_into_memory cfg now_ms (persist_append cfg ts batch fl) ser
                 = foldl (load_row cfg ?c) ser ?new"
      and "load_history_into_memory cfg now_ms fl ser = ser"
      using assms(1)
      by (simp_all add: load_history_into_memory_def persist_append_def written_rows_nonempty)
    then show ?thesis
      using load_rows_written [OF assms(2,3,4), of cfg ser name]
      by (simp cong: option.case_cong)
  next
    assume "\<exists>rows. fl = Some (CSV_HEADER # rows)"
    then obtain rows where fl: "fl = Some (CSV_HEADER # rows)" by blast
    let ?old = "foldl (load_row cfg ?c) ser (filter (\<lambda>row. row \<noteq> []) rows)"
    have "load_history_into_memory cfg now_ms (persist_append cfg ts batch fl) ser
            = foldl (load_row cfg ?c) ?old ?new"
      and "load_history_into_memory cfg now_ms fl ser = ?old"
      using assms(1)
      by (simp_all add: fl load_history_into_memory_def persist_append_def written_rows_nonempty)
    then show ?thesis
      using load_rows_written [OF assms(2,3,4), of cfg ?old name]
      by (simp cong: option.case_cong)
  qed
qed

text \<open>
  The claim as stated fails for a value that needs more than 12 significant digits:
  the binary64 successor of 1.0, that is \<open>1 + 2 ^ -52\<close>, is written as \<open>1\<close> and loaded as 1.0.
\<close>

theorem durable_log_roundtrip_counterexample:
  "load_history_into_memory scenario_config 1700000005000
     (persist_append scenario_config 1700000000000
        [(''Workers'', Fin (4503599627370497 / 4503599627370496))] None)
     (empty_series scenario_config) ''Workers''
   = Some [(1700000000000, Fin 1)]
   \<and> Fin 1 \<noteq> Fin (4503599627370497 / 4503599627370496)"
  by code_simp

theorem durable_log_roundtrip_witness:
  "PERSIST_ENABLED scenario_config
   \<and> distinct (map fst [(''HR1m'', Fin (107 / 10)), (''Workers'', Fin 3)])
   \<and> 1700000005000 - RETENTION_MS scenario_config \<le> 1700000000000
   \<and> (\<forall>(n, v) \<in> set [(''HR1m'', Fin (107 / 10)), (''Workers'', Fin 3)]. py_float (fmt12g v) = Some v)
   \<and> load_history_into_memory scenario_config 1700000005000
        (persist_append scenario_config 1700000000000
           [(''HR1m'', Fin (107 / 10)), (''Workers'', Fin 3)] None)
        (empty_series scenario_config) ''HR1m''
      = (case map_of [(''HR1m'', Fin (107 / 10)), (''Workers'', Fin 3)] ''HR1m'' of
           None \<Rightarrow> load_history_into_memory scenario_config 1700000005000 None
                     (empty_series scenario_config) ''HR1m''
         | Some v \<Rightarrow> map_option (deque_append (WINDOW_SIZE scenario_config) (1700000000000, v))
                       (load_history_into_memory scenario_config 1700000005000 None
                          (empty_series scenario_config) ''HR1m''))
   \<and> load_history_into_memory scenario_config 1700000005000
        (persist_append scenario_config 1700000000000
           [(''HR1m'', Fin (107 / 10)), (''Workers'', Fin 3)] None)
        (empty_series scenario_config) ''HR1m''
      = Some [(1700000000000, Fin (107 / 10))]"
proof -
  have h1: "PERSIST_ENABLED scenario_config" by code_simp
  have h2: "distinct (map fst [(''HR1m'', Fin (107 / 10)), (''Workers'', Fin 3)])" by code_simp
  have h3: "1700000005000 - RETENTION_MS scenario_config \<le> 1700000000000" by code_simp
  have h4: "\<forall>(n, v) \<in> set [(''HR1m'', Fin (107 / 10)), (''Workers'', Fin 3)].
              py_float (fmt12g v) = Some v"
    by code_simp
  have h5: "(None :: csv_file) = None \<or> (\<exists>rows. (None :: csv_file) = Some (CSV_HEADER # rows))"
    by simp
  have ev: "load_history_into_memory scenario_config 1700000005000
        (persist_append scenario_config 1700000000000
           [(''HR1m'', Fin (107 / 10)), (''Workers'', Fin 3)] None)
        (empty_series scenario_config) ''HR1m''
      = Some [(1700000000000, Fin (107 / 10))]"
    by code_simp
  from h1 h2 h3 h4 ev
    durable_log_roundtrip [OF h1 h2 h3 h4 h5, of "empty_series scenario_config" "''HR1m''"]
  show ?thesis by blast
qed

section \<open>Properties of the Path Resolver\<close>

lemma split_on_no_sep: "d \<notin> set p \<Longrightarrow> split_on d p = [p]"
  by (induction p) auto

lemma split_on_append: "d \<notin> set p \<Longrightarrow> split_on d (p @ d # rest) = p # split_on d rest"
  by (induction p) auto

lemma split_on_join:
  "\<forall>q \<in> set (p # ps). d \<notin> set q \<Longrightarrow> split_on d (join_dot (p # ps)) = p # ps"
    if "d = CHR ''.''"
proof (induction ps arbitrary: p)
  case Nil
  then show ?case by (simp add: split_on_no_sep)
next
  case (Cons q ps)
  from Cons.prems have p: "d \<notin> set p" and rest: "\<forall>r \<in> set (q # ps). d \<notin> set r" by auto
  have "split_on d (join_dot (p # q # ps)) = p # split_on d (join_dot (q # ps))"
    using p by (simp add: that [symmetric] split_on_append)
  with Cons.IH [OF rest] show ?case by simp
qed

lemma render_segment_no_dot:
  assumes "valid_key k"
  shows "CHR ''.'' \<notin> set (render_segment (k, io))"
proof (cases io)
  case None
  with assms show ?thesis by (auto simp: render_segment_def valid_key_def)
next
  case (Some i)
  have "list_all is_digit (show_nat (int i))" by (simp add: show_nat_digits)
  then have "CHR ''.'' \<notin> set (show_nat (int i))"
    by (auto simp: list_all_iff dest: is_digit_not_special(3))
  with assms Some show ?thesis by (auto simp: render_segment_def valid_key_def)
qed

lemma span_prefix:
  assumes "\<forall>x \<in> set xs. P x" and "ys = [] \<or> \<not> P (hd ys)"
  shows "takeWhile P (xs @ ys) = xs" and "dropWhile P (xs @ ys) = ys"
proof -
  have "takeWhile P ys = []" and "dropWhile P ys = ys"
    using assms(2) by (cases ys; simp)+
  with assms(1) show "takeWhile P (xs @ ys) = xs" and "dropWhile P (xs @ ys) = ys"
    by (simp_all add: takeWhile_append2 dropWhile_append2)
qed

lemma match_segment_render:
  assumes "valid_key k"
  shows "match_segment (render_segment (k, io)) = Some (k, map_option (\<lambda>i. show_nat (int i)) io)"
proof -
  from assms have k: "k \<noteq> []" "\<forall>c \<in> set k. \<not> is_bracket c"
    by (auto simp: valid_key_def)
  show ?thesis
  proof (cases io)
    case None
    have tw: "takeWhile (\<lambda>c. \<not> is_bracket c) k = k" "dropWhile (\<lambda>c. \<not> is_bracket c) k = []"
      using k(2) by simp_all
    show ?thesis
      using k(1) by (simp add: match_segment_def render_segment_def Let_def None tw)
  next
    case (Some i)
    let ?ds = "show_nat (int i)"
    let ?r = "CHR ''['' # ?ds @ '']''"
    have tw: "takeWhile (\<lambda>c. \<not> is_bracket c) (k @ ?r) = k" "dropWhile (\<lambda>c. \<not> is_bracket c) (k @ ?r) = ?r"
      using k(2) by (intro span_prefix; simp add: is_bracket_def)+
    have ds: "?ds \<noteq> []" "list_all is_digit ?ds"
      by (simp_all add: show_nat_nonempty show_nat_digits)
    show ?thesis
      using k(1) ds by (simp add: match_segment_def render_segment_def Let_def Some tw)
  qed
qed

lemma loop_leaf:
  assumes "\<forall>sg \<in> set sgs. valid_key (fst sg)"
  shows "case leaf_at obj sgs of
           Some v \<Rightarrow> get_by_dot_path_loop path obj (map render_segment sgs) = Inr v
         | None \<Rightarrow> path_not_found (get_by_dot_path_loop path obj (map render_segment sgs))"
  using assms
proof (induction sgs arbitrary: obj)
  case Nil
  show ?case by simp
next
  case (Cons sg sgs)
  obtain k io where sg: "sg = (k, io)" by (cases sg)
  from Cons.prems sg have k: "valid_key k" and rest: "\<forall>sg \<in> set sgs. valid_key (fst sg)"
    by auto
  note IH = Cons.IH [OF rest]
  note m = match_segment_render [OF k]
  show ?case
  proof (cases "case obj of JObj items \<Rightarrow> map_of items k | _ \<Rightarrow> None")
    case None
    then have a: "leaf_at obj (sg # sgs) = None"
      by (auto simp: sg split: json.splits)
    have b: "get_by_dot_path_loop path obj (map render_segment (sg # sgs))
               = Inl (KeyNotFound k path)"
      using None by (simp add: sg m)
    show ?thesis unfolding a b by (simp add: path_not_found_def)
  next
    case (Some v)
    then obtain items where obj: "obj = JObj items" and v: "map_of items k = Some v"
      by (auto split: json.splits)
    show ?thesis
    proof (cases io)
      case None
      have a: "leaf_at obj (sg # sgs) = leaf_at v sgs"
        by (simp add: sg obj v None)
      have b: "get_by_dot_path_loop path obj (map render_segment (sg # sgs))
                 = get_by_dot_path_loop path v (map render_segment sgs)"
        by (simp add: sg m obj v None)
      show ?thesis unfolding a b by (rule IH)
    next
      case (Some i)
      note i = py_int_show_nat [of "int i"]
      show ?thesis
      proof (cases "case v of JList xs \<Rightarrow> i < length xs | _ \<Rightarrow> False")
        case True
        then obtain xs where xs: "v = JList xs" and lt: "i < length xs"
          by (auto split: json.splits)
        have a: "leaf_at obj (sg # sgs) = leaf_at (xs ! i) sgs"
          by (simp add: sg obj v Some xs lt)
        have b: "get_by_dot_path_loop path obj (map render_segment (sg # sgs))
                   = get_by_dot_path_loop path (xs ! i) (map render_segment sgs)"
          using lt by (simp add: sg m obj v Some xs i)
        show ?thesis unfolding a b by (rule IH)
      next
        case False
        then have a: "leaf_at obj (sg # sgs) = None"
          by (auto simp: sg obj v Some split: json.splits)
        have b: "get_by_dot_path_loop path obj (map render_segment (sg # sgs))
                   = Inl (IndexOutOfRange (int i) k path)"
          using False by (auto simp: sg m obj v Some i split: json.splits)
        show ?thesis unfolding a b by (simp add: path_not_found_def)
      qed
    qed
  qed
qed

text \<open>
  C4. For a path of segments \<open>a.b[idx].c\<close>, \<open>get_by_dot_path\<close> returns the leaf at that
  location when the structure has the matching nesting; when a key is missing, a node
  at a keyed segment is no map, or the node at an indexed segment is no sequence or is
  shorter than the index asks, it fails with a \<open>KeyError\<close> of the kind \<open>PathNotFound\<close>.
\<close>

theorem path_resolver_returns_leaf:
  assumes "sgs \<noteq> []" and "\<forall>sg \<in> set sgs. valid_key (fst sg)"
  shows "case leaf_at obj sgs of
           Some v \<Rightarrow> get_by_dot_path obj (render_path sgs) = Inr v
         | None \<Rightarrow> path_not_found (get_by_dot_path obj (render_path sgs))"
proof -
  from assms(1) obtain sg rest where sgs: "sgs = sg # rest" by (cases sgs) auto
  have "\<forall>q \<in> set (map render_segment sgs). CHR ''.'' \<notin> set q"
    using assms(2) render_segment_no_dot by (metis (no_types, lifting) imageE list.set_map prod.collapse)
  then have sp: "split_on (CHR ''.'') (render_path sgs) = map render_segment sgs"
    unfolding render_path_def sgs using split_on_join [of "CHR ''.''"] by simp
  show ?thesis
    unfolding get_by_dot_path_def sp by (rule loop_leaf [OF assms(2)])
qed

theorem path_resolver_returns_leaf_witness:
  "[(''worker'', Some (0::nat)), (''hashrate1m'', None)] \<noteq> []
   \<and> (\<forall>sg \<in> set [(''worker'', Some (0::nat)), (''hashrate1m'', None)]. valid_key (fst sg))
   \<and> (case leaf_at (JObj [(''worker'', JList [JObj [(''hashrate1m'', JStr ''5T'')]])])
              [(''worker'', Some (0::nat)), (''hashrate1m'', None)] of
         Some v \<Rightarrow> get_by_dot_path (JObj [(''worker'', JList [JObj [(''hashrate1m'', JStr ''5T'')]])])
                     (render_path [(''worker'', Some (0::nat)), (''hashrate1m'', None)]) = Inr v
       | None \<Rightarrow> path_not_found
                   (get_by_dot_path (JObj [(''worker'', JList [JObj [(''hashrate1m'', JStr ''5T'')]])])
                      (render_path [(''worker'', Some (0::nat)), (''hashrate1m'', None)])))
   \<and> render_path [(''worker'', Some (0::nat)), (''hashrate1m'', None)] = ''worker[0].hashrate1m''
   \<and> leaf_at (JObj [(''worker'', JList [JObj [(''hashrate1m'', JStr ''5T'')]])])
        [(''worker'', Some (0::nat)), (''hashrate1m'', None)] = Some (JStr ''5T'')"
proof -
  have ne: "[(''worker'', Some (0::nat)), (''hashrate1m'', None)] \<noteq> []" by simp
  have keys: "\<forall>sg \<in> set [(''worker'', Some (0::nat)), (''hashrate1m'', None)]. valid_key (fst sg)"
    by code_simp
  have ev: "render_path [(''worker'', Some (0::nat)), (''hashrate1m'', None)] = ''worker[0].hashrate1m''"
    "leaf_at (JObj [(''worker'', JList [JObj [(''hashrate1m'', JStr ''5T'')]])])
        [(''worker'', Some (0::nat)), (''hashrate1m'', None)] = Some (JStr ''5T'')"
    by code_simp+
  note leaf = path_resolver_returns_leaf [OF ne keys,
      of "JObj [(''worker'', JList [JObj [(''hashrate1m'', JStr ''5T'')]])]"]
  show ?thesis
    by (rule conjI [OF ne conjI [OF keys conjI [OF leaf conjI [OF ev]]]])
qed

section \<open>Properties of the Value Parser\<close>

lemma numch_not_special:
  assumes "is_numch c"
  shows "\<not> is_space c" "\<not> is_float_space c" "c \<noteq> CHR ''-''" "c \<noteq> CHR ''+''" "\<not> is_e c"
    "\<not> is_unit_letter c" "lower c = c"
  using assms
  by (auto simp: is_numch_def is_digit_def is_space_def is_float_space_def is_e_def
        is_unit_letter_def lower_def code_def)

lemma unit_letter_not_space: "is_unit_letter c \<Longrightarrow> \<not> is_space c"
  by (auto simp: is_unit_letter_def is_space_def code_def)

lemma decimal_string_props:
  assumes "valid_decimal ip fp"
  shows "decimal_string ip fp \<noteq> []"
    and "\<forall>c \<in> set (decimal_string ip fp). is_numch c"
    and "is_digit (last (decimal_string ip fp))"
    and "is_number (decimal_string ip fp)"
proof -
  from assms have ip: "\<forall>c \<in> set ip. is_digit c" by (simp add: valid_decimal_def list_all_iff)
  show "decimal_string ip fp \<noteq> []"
    using assms by (cases fp) (simp_all add: valid_decimal_def decimal_string_def)
  show "\<forall>c \<in> set (decimal_string ip fp). is_numch c"
    using assms by (cases fp) (auto simp: valid_decimal_def decimal_string_def is_numch_def list_all_iff)
  show "is_digit (last (decimal_string ip fp))"
    using assms by (cases fp) (auto simp: valid_decimal_def decimal_string_def list_all_iff)
  show "is_number (decimal_string ip fp)"
  proof (cases fp)
    case None
    have dw: "dropWhile is_digit ip = []" using ip by simp
    from assms None show ?thesis
      by (simp add: valid_decimal_def decimal_string_def is_number_def dw)
  next
    case (Some f)
    have dw: "dropWhile is_digit (ip @ CHR ''.'' # f) = CHR ''.'' # f"
      using ip by (intro span_prefix) (simp_all add: is_digit_def code_def)
    from assms Some show ?thesis
      by (simp add: valid_decimal_def decimal_string_def is_number_def dw)
  qed
qed

text \<open>The regular expression matches, with the number in group 1 and the unit in group 2.\<close>

lemma match_unit_number_decimal:
  assumes ws: "list_all is_space ws1" "list_all is_space wsm" "list_all is_space ws2"
    and dec: "valid_decimal ip fp" and u: "valid_unit u"
  shows "match_unit_number (ws1 @ decimal_string ip fp @ wsm @ u @ ws2)
           = Some (decimal_string ip fp, u)"
proof -
  let ?num = "decimal_string ip fp"
  let ?rest = "wsm @ u @ ws2"
  note num = decimal_string_props [OF dec]
  from num(1) obtain c0 cs where cons: "?num = c0 # cs" by (cases ?num) auto
  with num(2) have c0: "is_numch c0" by simp
  have s1: "dropWhile is_space (ws1 @ ?num @ ?rest) = ?num @ ?rest"
    using ws(1) c0 by (intro span_prefix) (simp_all add: list_all_iff cons numch_not_special)
  have rest_hd: "?rest = [] \<or> \<not> is_numch (hd ?rest)"
  proof (cases wsm)
    case (Cons w ws')
    with ws(2) have "is_space w" by simp
    then have "\<not> is_numch w" using numch_not_special(1) by blast
    with Cons show ?thesis by simp
  next
    case Nil
    show ?thesis
    proof (cases u)
      case (Cons c cs)
      with u have "is_unit_letter c" by (simp add: valid_unit_def split: list.splits)
      then have "\<not> is_numch c" using numch_not_special(6) by blast
      with Nil Cons show ?thesis by simp
    next
      case u_nil: Nil
      show ?thesis
      proof (cases ws2)
        case (Cons w ws')
        with ws(3) have "is_space w" by simp
        then have "\<not> is_numch w" using numch_not_special(1) by blast
        with Nil u_nil Cons show ?thesis by simp
      next
        case ws2_nil: Nil
        with Nil u_nil show ?thesis by simp
      qed
    qed
  qed
  have tw: "takeWhile is_numch (?num @ ?rest) = ?num"
    and dw: "dropWhile is_numch (?num @ ?rest) = ?rest"
    using num(2) rest_hd by (rule span_prefix)+
  have s2: "dropWhile is_space ?rest = u @ (if u = [] then [] else ws2)"
  proof (cases u)
    case Nil
    with ws(2,3) show ?thesis by (simp add: list_all_iff)
  next
    case (Cons c cs)
    with u have c: "is_unit_letter c" "cs = []" by (simp_all add: valid_unit_def split: list.splits)
    have "dropWhile is_space (wsm @ c # ws2) = c # ws2"
      using ws(2) c(1) by (intro span_prefix) (simp_all add: list_all_iff unit_letter_not_space)
    with Cons c show ?thesis by simp
  qed
  have unit: "(case u @ (if u = [] then [] else ws2) of [] \<Rightarrow> []
               | c # _ \<Rightarrow> if is_unit_letter c then [c] else []) = u"
    using u by (auto simp: valid_unit_def split: list.splits)
  have s3: "dropWhile is_space (drop (length u) (u @ (if u = [] then [] else ws2))) = []"
    using ws(3) by (simp add: list_all_iff)
  show ?thesis
    unfolding match_unit_number_def Let_def s1 tw dw s2 unit s3
    using num(4) by simp
qed

text \<open>\<open>float\<close> reads a decimal number as its value.\<close>

lemma py_float_decimal:
  assumes dec: "valid_decimal ip fp"
  shows "py_float (decimal_string ip fp) = Some (Fin (decimal_value ip fp))"
proof -
  let ?num = "decimal_string ip fp"
  note num = decimal_string_props [OF dec]
  from num(1) obtain c0 cs where cons: "?num = c0 # cs" by (cases ?num) auto
  with num(2) have c0: "is_numch c0" by simp
  have "\<not> is_float_space (hd ?num)" "\<not> is_float_space (last ?num)"
    using c0 num(3) by (simp_all add: cons numch_not_special is_digit_not_special del: last.simps)
  with num(1) have strip: "py_strip ?num = ?num" by (intro py_strip_id)
  have sign: "split_sign ?num = (False, ?num)"
    using c0 by (auto simp: split_sign_def cons dest: numch_not_special)
  have low: "map lower ?num = ?num"
    using num(2) by (simp add: map_idI numch_not_special)
  have special: "?num \<noteq> ''inf''" "?num \<noteq> ''infinity''" "?num \<noteq> ''nan''"
    using c0 unfolding cons by (auto simp: is_numch_def is_digit_def code_def)
  have e: "takeWhile (\<lambda>c. \<not> is_e c) ?num = ?num" "dropWhile (\<lambda>c. \<not> is_e c) ?num = []"
    using num(2) by (simp_all add: numch_not_special)
  have mant: "parse_mantissa ?num = Some (decimal_value ip fp)"
  proof (cases fp)
    case None
    with dec have ip: "ip \<noteq> []" "list_all is_digit ip" by (simp_all add: valid_decimal_def)
    then have "\<forall>c \<in> set ip. c \<noteq> CHR ''.''"
      by (auto simp: list_all_iff dest: is_digit_not_special(3))
    then have sp: "takeWhile (\<lambda>c. c \<noteq> CHR ''.'') ip = ip" "dropWhile (\<lambda>c. c \<noteq> CHR ''.'') ip = []"
      by simp_all
    show ?thesis
      by (simp add: parse_mantissa_def decimal_string_def decimal_value_def None
            digitpart_digits ip sp Let_def)
  next
    case (Some f)
    with dec have ip: "list_all is_digit ip" and f: "f \<noteq> []" "list_all is_digit f"
      by (simp_all add: valid_decimal_def)
    from ip have "\<forall>c \<in> set ip. c \<noteq> CHR ''.''"
      by (auto simp: list_all_iff dest: is_digit_not_special(3))
    then have sp: "takeWhile (\<lambda>c. c \<noteq> CHR ''.'') (ip @ CHR ''.'' # f) = ip"
      "dropWhile (\<lambda>c. c \<noteq> CHR ''.'') (ip @ CHR ''.'' # f) = CHR ''.'' # f"
      by (intro span_prefix; simp)+
    have "(if ip = [] then Some [] else digitpart ip) = Some ip"
      using ip by (simp add: digitpart_digits)
    then show ?thesis
      using f by (simp add: parse_mantissa_def decimal_string_def decimal_value_def Some sp
            digitpart_digits Let_def)
  qed
  have "parse_decimal ?num = Some (decimal_value ip fp)"
    by (simp add: parse_decimal_def Let_def e mant)
  then show ?thesis
    by (simp add: py_float_def strip sign low special)
qed

lemma valid_unit_cases:
  assumes "valid_unit u"
  shows "u \<in> set ['''', ''k'', ''K'', ''m'', ''M'', ''g'', ''G'', ''t'', ''T'', ''p'', ''P'']"
  using assms by (auto simp: valid_unit_def is_unit_letter_def split: list.splits)

text \<open>The table \<open>UNIT_MAP\<close>, looked up with the unit in upper case, is the table of the specification.\<close>

lemma unit_table:
  "\<forall>u \<in> set ['''', ''k'', ''K'', ''m'', ''M'', ''g'', ''G'', ''t'', ''T'', ''p'', ''P''].
     (case map_of UNIT_MAP (map upper u) of None \<Rightarrow> Fin 1 | Some m \<Rightarrow> m) = Fin (unit_multiplier u)
     \<and> valid_unit (map upper u) \<and> valid_unit (map lower u)
     \<and> unit_multiplier (map upper u) = unit_multiplier (map lower u)"
  by code_simp

lemma unit_map_lookup:
  assumes "valid_unit u"
  shows "(case map_of UNIT_MAP (map upper u) of None \<Rightarrow> Fin 1 | Some m \<Rightarrow> m)
           = Fin (unit_multiplier u)"
  using unit_table valid_unit_cases [OF assms] by blast

lemma unit_case_insensitive:
  assumes "valid_unit u"
  shows "valid_unit (map upper u)" "valid_unit (map lower u)"
    "unit_multiplier (map upper u) = unit_multiplier (map lower u)"
  using unit_table valid_unit_cases [OF assms] by blast+

lemma parse_unit_number_decimal:
  assumes "list_all is_space ws1" "list_all is_space wsm" "list_all is_space ws2"
    and "valid_decimal ip fp" and "valid_unit u"
  shows "parse_unit_number (JStr (ws1 @ decimal_string ip fp @ wsm @ u @ ws2))
           = Inr (Fin (decimal_value ip fp * unit_multiplier u))"
  by (simp add: parse_unit_number_def match_unit_number_decimal [OF assms]
        py_float_decimal [OF assms(4)] unit_map_lookup [OF assms(5)] fmul_def)

text \<open>
  C2. A string made of white space, a decimal number, a unit letter or none, and white
  space is parsed as the value of the number times the multiplier of the unit letter;
  the upper-case and the lower-case letter give the same result; an \<open>int\<close> and a
  \<open>float\<close> are returned as the float they denote.
\<close>

theorem parse_unit_number_scales:
  assumes "list_all is_space ws1" and "list_all is_space ws2"
    and "valid_decimal ip fp" and "valid_unit u"
  shows "parse_unit_number (JStr (ws1 @ decimal_string ip fp @ u @ ws2))
           = Inr (Fin (decimal_value ip fp * unit_multiplier u))
         \<and> parse_unit_number (JStr (ws1 @ decimal_string ip fp @ map upper u @ ws2))
           = parse_unit_number (JStr (ws1 @ decimal_string ip fp @ map lower u @ ws2))
         \<and> parse_unit_number (JInt n) = Inr (Fin (of_int n))
         \<and> parse_unit_number (JFloat f) = Inr f"
proof -
  have nil: "list_all is_space []" by simp
  note p = parse_unit_number_decimal [OF assms(1) nil assms(2,3), simplified]
  show ?thesis
    using p [OF assms(4)] p [OF unit_case_insensitive(1) [OF assms(4)]]
      p [OF unit_case_insensitive(2) [OF assms(4)]] unit_case_insensitive(3) [OF assms(4)]
    by (simp add: parse_unit_number_def)
qed

theorem parse_unit_number_scales_witness:
  "list_all is_space '' '' \<and> valid_decimal ''10'' (Some ''7'') \<and> valid_unit ''t''
   \<and> (parse_unit_number (JStr ('' '' @ decimal_string ''10'' (Some ''7'') @ ''t'' @ '' ''))
           = Inr (Fin (decimal_value ''10'' (Some ''7'') * unit_multiplier ''t''))
         \<and> parse_unit_number (JStr ('' '' @ decimal_string ''10'' (Some ''7'') @ map upper ''t'' @ '' ''))
           = parse_unit_number (JStr ('' '' @ decimal_string ''10'' (Some ''7'') @ map lower ''t'' @ '' ''))
         \<and> parse_unit_number (JInt 3) = Inr (Fin (of_int 3))
         \<and> parse_unit_number (JFloat (Fin (1 / 2))) = Inr (Fin (1 / 2)))
   \<and> parse_unit_number (JStr '' 10.7t '') = Inr (Fin 10700000000000)"
proof -
  have ws: "list_all is_space '' ''" by code_simp
  have dec: "valid_decimal ''10'' (Some ''7'')" by code_simp
  have u: "valid_unit ''t''" by code_simp
  have ev: "parse_unit_number (JStr '' 10.7t '') = Inr (Fin 10700000000000)" by code_simp
  from ws dec u ev parse_unit_number_scales [OF ws ws dec u, of 3 "Fin (1 / 2)"]
  show ?thesis by blast
qed

text \<open>
  C3. A \<open>bool\<close> is an \<open>int\<close> for \<open>isinstance\<close>: \<open>parse_unit_number\<close> returns 1.0 for
  \<open>True\<close> and 0.0 for \<open>False\<close>, where a \<open>ValueError\<close> is expected.
\<close>

theorem parse_unit_number_accepts_bool:
  "parse_unit_number (JBool True) = Inr (Fin 1) \<and> parse_unit_number (JBool False) = Inr (Fin 0)"
  by (simp add: parse_unit_number_def)

text \<open>
  The other inputs that are no number fail with the \<open>ValueError\<close> of line 84 that names
  them: \<open>None\<close>, lists, dicts, and the strings that neither the regular expression nor
  \<open>float\<close> accepts.
\<close>

lemma parse_unit_number_rejects:
  "parse_unit_number JNull = Inl (ValueError JNull)"
  "parse_unit_number (JList xs) = Inl (ValueError (JList xs))"
  "parse_unit_number (JObj items) = Inl (ValueError (JObj items))"
  "match_unit_number s = None \<Longrightarrow> py_float s = None \<Longrightarrow>
     parse_unit_number (JStr s) = Inl (ValueError (JStr s))"
  by (simp_all add: parse_unit_number_def)

lemma parse_unit_number_rejects_examples:
  "parse_unit_number (JStr ''abc'') = Inl (ValueError (JStr ''abc''))"
  "parse_unit_number (JStr ''12XQ'') = Inl (ValueError (JStr ''12XQ''))"
  by code_simp+

end
